theory Spec2Isabelle
  imports Complex_Main "HOL-Library.Word"
begin

unbundle bit_operations_syntax

section \<open>Numbers\<close>

text \<open>
  A JavaScript number is an IEEE-754 double: a finite double, which is a real number,
  \<open>Infinity\<close>, \<open>-Infinity\<close> or NaN. \<open>JSON.parse\<close> gives the finite doubles and, for a literal
  such as \<open>1e999\<close>, the two infinities. The sign of a zero is not kept: the only operation of
  the program that could tell \<open>-0\<close> from \<open>0\<close> is a division by it, and the program divides
  by \<open>max - min || 1\<close> only, which is never a zero.
\<close>

datatype num = NInf | Fin real | PInf | NaN

text \<open>
  An arithmetic operation on two finite doubles returns the exact result rounded to a
  double. The rounding to the nearest double with an exponent that has no upper limit is
  the parameter \<open>rnd\<close> of the definitions below; a rounded result beyond the largest finite
  double overflows to an infinity. The theorems ask of \<open>rnd\<close> only what rounding to nearest
  gives: it is monotone and it leaves the doubles 0, 1/2, 1 and 255 as they are. Exact
  arithmetic is the instance \<open>rnd = (\<lambda>x. x)\<close>; it is what the doubles do when every result
  is a double.
\<close>

type_synonym rounding = "real \<Rightarrow> real"

definition roundingOK :: "rounding \<Rightarrow> bool" where
  "roundingOK rnd = (mono rnd \<and> rnd 0 = 0 \<and> rnd (1 / 2) = 1 / 2 \<and> rnd 1 = 1 \<and> rnd 255 = 255)"

text \<open>A coarse rounding, to the nearest multiple of 1/4 (halves go up).\<close>

definition quarters :: rounding where
  "quarters x = of_int \<lfloor>4 * x + 1 / 2\<rfloor> / 4"

definition exact :: rounding where
  "exact x = x"

text \<open>\<open>Number.MAX_VALUE\<close>, and a rounded result as a double.\<close>

definition maxDouble :: real where
  "maxDouble = 2 ^ 1024 - 2 ^ 971"

definition rd :: "rounding \<Rightarrow> real \<Rightarrow> num" where
  "rd rnd x = (if maxDouble < rnd x then PInf else if rnd x < - maxDouble then NInf else Fin (rnd x))"

definition inf_of :: "bool \<Rightarrow> num" where
  "inf_of positive = (if positive then PInf else NInf)"

text \<open>\<open>a - b\<close>, \<open>a * b\<close> and \<open>a / b\<close>.\<close>

fun jsSub :: "rounding \<Rightarrow> num \<Rightarrow> num \<Rightarrow> num" where
  "jsSub rnd (Fin x) (Fin y) = rd rnd (x - y)"
| "jsSub rnd NaN b = NaN"
| "jsSub rnd a NaN = NaN"
| "jsSub rnd PInf PInf = NaN"
| "jsSub rnd NInf NInf = NaN"
| "jsSub rnd PInf b = PInf"
| "jsSub rnd NInf b = NInf"
| "jsSub rnd a PInf = NInf"
| "jsSub rnd a NInf = PInf"

fun jsMul :: "rounding \<Rightarrow> num \<Rightarrow> num \<Rightarrow> num" where
  "jsMul rnd (Fin x) (Fin y) = rd rnd (x * y)"
| "jsMul rnd NaN b = NaN"
| "jsMul rnd a NaN = NaN"
| "jsMul rnd (Fin x) b = (if x = 0 then NaN else inf_of ((0 < x) = (b = PInf)))"
| "jsMul rnd a (Fin y) = (if y = 0 then NaN else inf_of ((0 < y) = (a = PInf)))"
| "jsMul rnd a b = inf_of (a = b)"

fun jsDiv :: "rounding \<Rightarrow> num \<Rightarrow> num \<Rightarrow> num" where
  "jsDiv rnd (Fin x) (Fin y) =
     (if y = 0 then (if x = 0 then NaN else inf_of (0 < x)) else rd rnd (x / y))"
| "jsDiv rnd NaN b = NaN"
| "jsDiv rnd a NaN = NaN"
| "jsDiv rnd (Fin x) b = Fin 0"
| "jsDiv rnd a (Fin y) = inf_of ((0 \<le> y) = (a = PInf))"
| "jsDiv rnd a b = NaN"

text \<open>\<open>a <= b\<close>, which is false when one of the two is NaN.\<close>

fun num_le :: "num \<Rightarrow> num \<Rightarrow> bool" where
  "num_le NaN b = False"
| "num_le a NaN = False"
| "num_le NInf b = True"
| "num_le a PInf = True"
| "num_le (Fin x) (Fin y) = (x \<le> y)"
| "num_le a b = False"

text \<open>A number that counts as false: 0 and NaN.\<close>

definition falsy :: "num \<Rightarrow> bool" where
  "falsy a = (a = Fin 0 \<or> a = NaN)"

text \<open>\<open>Math.floor(a)\<close>.\<close>

fun Math_floor :: "num \<Rightarrow> num" where
  "Math_floor (Fin x) = Fin (of_int \<lfloor>x\<rfloor>)"
| "Math_floor a = a"

text \<open>
  The conversion of the operands of \<open><<\<close> and \<open>|\<close>: NaN and the infinities become 0, a
  finite number is truncated and taken modulo \<open>2^32\<close>.
\<close>

fun ToInt32 :: "num \<Rightarrow> 32 word" where
  "ToInt32 (Fin x) = word_of_int (if 0 \<le> x then \<lfloor>x\<rfloor> else \<lceil>x\<rceil>)"
| "ToInt32 a = 0"

text \<open>
  \<open>Math.min(...ws)\<close> and \<open>Math.max(...ws)\<close>: NaN when an argument is NaN, and \<open>Infinity\<close>
  and \<open>-Infinity\<close> of no argument.
\<close>

definition jsMin :: "num \<Rightarrow> num \<Rightarrow> num" where
  "jsMin a b = (if a = NaN \<or> b = NaN then NaN else if num_le a b then a else b)"

definition jsMax :: "num \<Rightarrow> num \<Rightarrow> num" where
  "jsMax a b = (if a = NaN \<or> b = NaN then NaN else if num_le a b then b else a)"

definition Math_min :: "num list \<Rightarrow> num" where
  "Math_min ws = fold jsMin ws PInf"

definition Math_max :: "num list \<Rightarrow> num" where
  "Math_max ws = fold jsMax ws NInf"

subsection \<open>Single precision\<close>

text \<open>
  \<open>Math.fround(a)\<close>, the value that a \<open>Float32Array\<close> keeps of \<open>a\<close>: the nearest number with
  a significand of 24 bits and an exponent from -126 to 127, ties to the even significand;
  beyond the largest such number it is an infinity. \<open>binadeFrom n e a\<close> looks for the
  exponent of \<open>a\<close> from \<open>e\<close> upwards, \<open>n\<close> steps at most.
\<close>

definition rne :: "real \<Rightarrow> int" where
  "rne y =
     (let f = \<lfloor>y\<rfloor>; d = y - of_int f
      in if d < 1 / 2 then f else if 1 / 2 < d then f + 1 else if even f then f else f + 1)"

fun binadeFrom :: "nat \<Rightarrow> int \<Rightarrow> real \<Rightarrow> int" where
  "binadeFrom 0 e a = e"
| "binadeFrom (Suc n) e a = (if 2 powi (e + 1) \<le> a then binadeFrom n (e + 1) a else e)"

definition fround :: "num \<Rightarrow> num" where
  "fround a =
     (case a of
        Fin x \<Rightarrow>
          (let e = binadeFrom 253 (- 126) \<bar>x\<bar>;
               u = 2 powi (e - 23);
               y = of_int (rne (x / u)) * u
           in if 2 powi 128 \<le> y then PInf else if y \<le> - (2 powi 128) then NInf else Fin y)
      | _ \<Rightarrow> a)"

section \<open>Links and their weights\<close>

text \<open>
  A link as the backend sends it, \<open>{ source, target, weight?, value? }\<close>, with the fields
  that \<open>renderGraph3D\<close> attaches: \<open>sourceObj\<close> and \<open>targetObj\<close> (the node object found, here
  its index in \<open>graph.nodes\<close>; \<open>None\<close> is \<open>undefined\<close>) and \<open>line\<close> (a reference to the line
  object). An absent or \<open>null\<close> field is \<open>None\<close>; a weight or a value that is present is a
  number, as the shape of a link says.
\<close>

record link =
  source :: string
  target :: string
  weight :: "num option"
  "value" :: "num option"
  sourceObj :: "nat option"
  targetObj :: "nat option"
  line :: "nat option"

text \<open>\<open>a ?? b\<close>: \<open>b\<close> when \<open>a\<close> is \<open>null\<close> or \<open>undefined\<close>.\<close>

definition nullish :: "'a option \<Rightarrow> 'a option \<Rightarrow> 'a option" where
  "nullish a b = (case a of None \<Rightarrow> b | Some v \<Rightarrow> Some v)"

text \<open>\<open>a || 1\<close> on a number or \<open>undefined\<close>: 1 when \<open>a\<close> is \<open>undefined\<close>, 0 or NaN.\<close>

definition orOne :: "num option \<Rightarrow> num" where
  "orOne a = (case a of None \<Rightarrow> Fin 1 | Some v \<Rightarrow> if falsy v then Fin 1 else v)"

text \<open>\<open>(l.weight ?? l.value) || 1\<close>, the expression of lines 97, 119 and 158.\<close>

definition linkWeight :: "'a link_scheme \<Rightarrow> num" where
  "linkWeight l = orOne (nullish (weight l) (value l))"

section \<open>The colour of a weight\<close>

text \<open>
  \<open>getColorForWeight\<close>, lines 102 to 108. \<open>max - min || 1\<close> is the divisor; \<open>t\<close>, \<open>r\<close>, \<open>g\<close> and
  \<open>b\<close> are the local constants of the function. \<open><<\<close> and \<open>|\<close> work on the 32-bit two's
  complement value of their operands and return a signed 32-bit integer.
\<close>

definition divisor :: "rounding \<Rightarrow> num \<Rightarrow> num \<Rightarrow> num" where
  "divisor rnd mn mx = (let d = jsSub rnd mx mn in if falsy d then Fin 1 else d)"

definition normalized :: "rounding \<Rightarrow> num \<Rightarrow> num \<Rightarrow> num \<Rightarrow> num" where
  "normalized rnd w mn mx = jsDiv rnd (jsSub rnd w mn) (divisor rnd mn mx)"

definition red :: "rounding \<Rightarrow> num \<Rightarrow> num \<Rightarrow> num \<Rightarrow> num" where
  "red rnd w mn mx = Math_floor (jsMul rnd (Fin 255) (normalized rnd w mn mx))"

definition green :: num where
  "green = Fin 0"

definition blue :: "rounding \<Rightarrow> num \<Rightarrow> num \<Rightarrow> num \<Rightarrow> num" where
  "blue rnd w mn mx =
     Math_floor (jsMul rnd (Fin 255) (jsSub rnd (Fin 1) (normalized rnd w mn mx)))"

definition packRGB :: "num \<Rightarrow> num \<Rightarrow> num \<Rightarrow> int" where
  "packRGB r g b = sint (push_bit 16 (ToInt32 r) OR push_bit 8 (ToInt32 g) OR ToInt32 b)"

definition getColorForWeight :: "rounding \<Rightarrow> num \<Rightarrow> num \<Rightarrow> num \<Rightarrow> int" where
  "getColorForWeight rnd w mn mx =
     (let r = red rnd w mn mx; g = green; b = blue rnd w mn mx in packRGB r g b)"

text \<open>The three bytes of a colour \<open>0xRRGGBB\<close>.\<close>

definition redByte :: "int \<Rightarrow> int" where
  "redByte c = (c div 65536) mod 256"

definition greenByte :: "int \<Rightarrow> int" where
  "greenByte c = (c div 256) mod 256"

definition blueByte :: "int \<Rightarrow> int" where
  "blueByte c = c mod 256"

text \<open>
  The link weight as the specification words it: the \<open>weight\<close> field when it is present,
  otherwise the \<open>value\<close> field, and 1 when neither is present.
\<close>

definition specWeight :: "'a link_scheme \<Rightarrow> num" where
  "specWeight l =
     (case weight l of Some w \<Rightarrow> w | None \<Rightarrow> (case value l of Some v \<Rightarrow> v | None \<Rightarrow> Fin 1))"

text \<open>A link as \<open>JSON.parse\<close> returns it: nothing is attached to it yet.\<close>

definition jsonLink :: "string \<Rightarrow> string \<Rightarrow> num option \<Rightarrow> num option \<Rightarrow> link" where
  "jsonLink s t w v =
     \<lparr>source = s, target = t, weight = w, value = v, sourceObj = None, targetObj = None, line = None\<rparr>"

text \<open>The links of the example snapshot: a-b of weight 1, b-c of weight 5, a-x of weight 3.\<close>

definition exampleLinks :: "link list" where
  "exampleLinks =
     [jsonLink ''a'' ''b'' (Some (Fin 1)) None, jsonLink ''b'' ''c'' (Some (Fin 5)) None,
      jsonLink ''a'' ''x'' (Some (Fin 3)) None]"

text \<open>Three links of one weight, given in the \<open>value\<close> field.\<close>

definition equalLinks :: "link list" where
  "equalLinks =
     [jsonLink ''a'' ''b'' None (Some (Fin 2)), jsonLink ''b'' ''c'' None (Some (Fin 2)),
      jsonLink ''c'' ''a'' None (Some (Fin 2))]"

text \<open>
  Two links whose weights are the doubles \<open>-2^1023\<close> and \<open>2^1023\<close>, the JSON literals
  \<open>-8.9884656743115795e307\<close> and \<open>8.9884656743115795e307\<close>; and three links of weight
  \<open>Infinity\<close>, the JSON literal \<open>1e999\<close>.
\<close>

definition hugeLinks :: "link list" where
  "hugeLinks =
     [jsonLink ''a'' ''b'' (Some (Fin (- (2 ^ 1023)))) None,
      jsonLink ''b'' ''c'' (Some (Fin (2 ^ 1023))) None]"

definition infiniteLinks :: "link list" where
  "infiniteLinks =
     [jsonLink ''a'' ''b'' (Some PInf) None, jsonLink ''b'' ''c'' (Some PInf) None,
      jsonLink ''c'' ''a'' (Some PInf) None]"

section \<open>The scene\<close>

text \<open>
  The objects of the program are kept in stores, so that two references to one object
  stay one object: a mesh is a key of \<open>meshes\<close> and a line is a key of \<open>lines\<close>, both
  allocated in order (\<open>nextMesh\<close>, \<open>nextLine\<close>). A node object is its index in \<open>graph.nodes\<close>.
  What the libraries do is taken from their documentation: \<open>setFromPoints\<close> and \<open>setXYZ\<close>
  store the coordinates they are given in a \<open>Float32Array\<close>, which keeps them in single
  precision, \<open>Vector3.set\<close> stores the coordinates as they are, \<open>Group.add\<close> appends a child
  and \<open>Group.clear\<close> removes all children, \<open>Color.set\<close> stores the colour it is given, and
  \<open>find\<close> returns the first element that matches.
\<close>

type_synonym ref = nat
type_synonym vec3 = "num \<times> num \<times> num"
type_synonym font = string

text \<open>A node \<open>{ id, ... }\<close> with the fields that \<open>renderGraph3D\<close> attaches to it.\<close>

record node =
  node_id :: string
  mesh :: "ref option"
  node_x :: num
  node_y :: num
  node_z :: num

definition jsonNode :: "string \<Rightarrow> node" where
  "jsonNode i = \<lparr>node_id = i, mesh = None, node_x = Fin 0, node_y = Fin 0, node_z = Fin 0\<rparr>"

record graph =
  nodes :: "node list"
  links :: "link list"

text \<open>
  A \<open>THREE.Mesh\<close> of a \<open>TextGeometry\<close> and a \<open>MeshBasicMaterial\<close>: its position, the colour
  of its material, the text and font of its geometry, and its \<open>userData\<close>
  \<open>{ id, isNode: true, links }\<close>.
\<close>

record meshObj =
  position :: vec3
  mesh_color :: int
  label :: string
  label_font :: font
  ud_id :: string
  ud_links :: "ref list"

text \<open>
  A \<open>THREE.Line\<close> of a \<open>BufferGeometry\<close> and a \<open>LineBasicMaterial\<close>: the position attribute
  of its geometry (\<open>None\<close> when the geometry or the attribute is missing), the colour, the
  transparency and the opacity of its material, and its \<open>userData\<close>
  \<open>{ source, target, weight, originalColor }\<close>.
\<close>

record lineObj =
  points :: "vec3 list option"
  line_color :: int
  transparent :: bool
  opacity :: real
  ud_source :: nat
  ud_target :: nat
  ud_weight :: num
  originalColor :: "int option"

text \<open>
  A child of \<open>graphGroup\<close>. \<open>child.userData.isNode\<close> is true of a mesh and undefined of a
  line; \<open>child.type\<close> is \<open>"Line"\<close> of a line and \<open>"Mesh"\<close> of a mesh.
\<close>

datatype child = MeshChild ref | LineChild ref

definition isNode :: "child \<Rightarrow> bool" where
  "isNode c = (case c of MeshChild m \<Rightarrow> True | LineChild r \<Rightarrow> False)"

text \<open>
  What is thrown: a \<open>TypeError\<close> by a property read of \<open>undefined\<close> or \<open>null\<close>, the rejections
  of \<open>fetch\<close> and of \<open>res.json()\<close>, and an \<open>Error\<close> of the force library.
\<close>

datatype exn = TypeError | FetchError | SyntaxError | ForceError

datatype logEntry = Warn string | Error string exn

text \<open>
  The tooltip: the string last assigned to its \<open>innerHTML\<close> and its \<open>style.visibility\<close>.
  The DOM parses the string assigned as markup; what the element then shows, and what
  \<open>innerHTML\<close> reads back, is not followed.
\<close>

record tooltipEl =
  assignedHTML :: string
  visibility :: string

text \<open>
  A simulation: what its tick handler closes over (\<open>graph\<close>, \<open>minWeight\<close> and \<open>maxWeight\<close>),
  and whether it runs; \<open>stop()\<close> ends that, and nothing in the program starts it again.
\<close>

record simulationObj =
  sim_graph :: graph
  sim_minWeight :: num
  sim_maxWeight :: num
  running :: bool

definition stop :: "simulationObj \<Rightarrow> simulationObj" where
  "stop sim = sim\<lparr>running := False\<rparr>"

text \<open>
  The variables of the module. \<open>currentGraph\<close> is assigned and never read. It is the object
  that \<open>renderGraph3D\<close> is given and changes in place, and the field holds it as the call
  leaves it; what the ticks then change is followed in the graph of the simulation.
\<close>

record state =
  loadedFont :: "font option"
  simulation :: "simulationObj option"
  currentGraph :: "graph option"
  children :: "child list"
  meshes :: "ref \<Rightarrow> meshObj"
  nextMesh :: nat
  lines :: "ref \<Rightarrow> lineObj"
  nextLine :: nat
  highlightedNode :: "ref option"
  tooltip :: tooltipEl
  console :: "logEntry list"

definition nodeColor :: int where
  "nodeColor = 16777215"

definition highlightColor :: int where
  "highlightColor = 16776960"

definition neutralGray :: int where
  "neutralGray = 8947848"

definition axisLength :: num where
  "axisLength = Fin 40"

definition origin :: vec3 where
  "origin = (Fin 0, Fin 0, Fin 0)"

text \<open>What a \<open>Float32Array\<close> keeps of the three coordinates of a point.\<close>

definition fround3 :: "vec3 \<Rightarrow> vec3" where
  "fround3 p = (fround (fst p), fround (fst (snd p)), fround (snd (snd p)))"

definition noMesh :: meshObj where
  "noMesh = \<lparr>position = origin, mesh_color = 0, label = [], label_font = [], ud_id = [],
     ud_links = []\<rparr>"

definition noLine :: lineObj where
  "noLine = \<lparr>points = None, line_color = 0, transparent = False, opacity = 1, ud_source = 0,
     ud_target = 0, ud_weight = Fin 0, originalColor = None\<rparr>"

text \<open>The module as it is loaded, lines 9 to 59 and 220.\<close>

definition initialState :: state where
  "initialState =
     \<lparr>loadedFont = None, simulation = None, currentGraph = Some \<lparr>nodes = [], links = []\<rparr>,
      children = [], meshes = (\<lambda>r. noMesh), nextMesh = 0, lines = (\<lambda>r. noLine), nextLine = 0,
      highlightedNode = None, tooltip = \<lparr>assignedHTML = [], visibility = ''hidden''\<rparr>,
      console = []\<rparr>"

text \<open>The callback of \<open>fontLoader.load\<close>, line 53.\<close>

definition fontLoaded :: "font \<Rightarrow> state \<Rightarrow> state" where
  "fontLoaded f s = s\<lparr>loadedFont := Some f\<rparr>"

subsection \<open>renderGraph3D\<close>

text \<open>
  Lines 73 to 88, for the nodes from the \<open>k\<close>-th on. \<open>rand\<close> gives the results of the
  calls of \<open>Math.random\<close>, three for each node.
\<close>

definition textMesh :: "font \<Rightarrow> string \<Rightarrow> meshObj" where
  "textMesh f i =
     \<lparr>position = origin, mesh_color = nodeColor, label = i, label_font = f, ud_id = i,
      ud_links = []\<rparr>"

definition startAt :: "rounding \<Rightarrow> real \<Rightarrow> num" where
  "startAt rnd u = jsMul rnd (jsSub rnd (Fin u) (Fin (1 / 2))) axisLength"

fun initNodes :: "font \<Rightarrow> rounding \<Rightarrow> (nat \<Rightarrow> real) \<Rightarrow> nat \<Rightarrow> node list \<Rightarrow> state \<Rightarrow> node list \<times> state" where
  "initNodes f rnd rand k [] s = ([], s)"
| "initNodes f rnd rand k (n # ns) s =
     (let m = nextMesh s;
          s1 = s\<lparr>meshes := (meshes s)(m := textMesh f (node_id n)), nextMesh := m + 1,
                 children := children s @ [MeshChild m]\<rparr>;
          n1 = n\<lparr>mesh := Some m, node_x := startAt rnd (rand (3 * k)),
                 node_y := startAt rnd (rand (3 * k + 1)),
                 node_z := startAt rnd (rand (3 * k + 2))\<rparr>;
          (ns1, s2) = initNodes f rnd rand (k + 1) ns s1
      in (n1 # ns1, s2))"

text \<open>\<open>graph.nodes.find(n => n.id === i)\<close>: the first node of that id, if there is one.\<close>

fun findNode :: "node list \<Rightarrow> string \<Rightarrow> nat option" where
  "findNode [] i = None"
| "findNode (n # ns) i = (if node_id n = i then Some 0 else map_option Suc (findNode ns i))"

text \<open>Lines 91 to 94.\<close>

definition bindLink :: "node list \<Rightarrow> link \<Rightarrow> link" where
  "bindLink ns l = l\<lparr>sourceObj := findNode ns (source l), targetObj := findNode ns (target l)\<rparr>"

text \<open>\<open>l.sourceObj.mesh\<close> of the node object \<open>i\<close>.\<close>

definition nodeMesh :: "node list \<Rightarrow> nat \<Rightarrow> ref option" where
  "nodeMesh ns i = (if i < length ns then mesh (ns ! i) else None)"

text \<open>\<open>mesh.userData.links.push(line)\<close>.\<close>

definition pushLink :: "ref \<Rightarrow> ref \<Rightarrow> state \<Rightarrow> state" where
  "pushLink m r s =
     s\<lparr>meshes := (meshes s)(m := (meshes s m)\<lparr>ud_links := ud_links (meshes s m) @ [r]\<rparr>)\<rparr>"

text \<open>
  Lines 114 to 130, and the same statements at lines 178 to 184: a line between the
  positions of the two meshes, which its geometry keeps in single precision, added to the
  group and to the lists of both meshes.
\<close>

definition newLine :: "rounding \<Rightarrow> num \<Rightarrow> num \<Rightarrow> link \<Rightarrow> nat \<Rightarrow> nat \<Rightarrow> ref \<Rightarrow> ref \<Rightarrow> state \<Rightarrow> state" where
  "newLine rnd minWeight maxWeight l i j mi mj s =
     (let w = linkWeight l;
          colorHex = getColorForWeight rnd w minWeight maxWeight;
          r = nextLine s;
          lobj = \<lparr>points = Some [fround3 (position (meshes s mi)), fround3 (position (meshes s mj))],
                line_color = colorHex, transparent = True, opacity = 9 / 10,
                ud_source = i, ud_target = j, ud_weight = w, originalColor = Some colorHex\<rparr>;
          s1 = s\<lparr>lines := (lines s)(r := lobj), nextLine := r + 1,
                 children := children s @ [LineChild r]\<rparr>
      in pushLink mj r (pushLink mi r s1))"

text \<open>
  Lines 111 to 133. Reading \<open>.position\<close> of a mesh that is undefined throws a TypeError,
  which ends the loop; the links come back as far as they were changed.
\<close>

fun createLines :: "rounding \<Rightarrow> num \<Rightarrow> num \<Rightarrow> node list \<Rightarrow> link list \<Rightarrow> state \<Rightarrow> exn option \<times> link list \<times> state" where
  "createLines rnd minWeight maxWeight ns [] s = (None, [], s)"
| "createLines rnd minWeight maxWeight ns (l # ls) s =
     (case (sourceObj l, targetObj l) of
        (Some i, Some j) \<Rightarrow>
          (case (nodeMesh ns i, nodeMesh ns j) of
             (Some mi, Some mj) \<Rightarrow>
               (let s1 = newLine rnd minWeight maxWeight l i j mi mj s;
                    (e, ls1, s2) = createLines rnd minWeight maxWeight ns ls s1
                in (e, l\<lparr>line := Some (nextLine s)\<rparr> # ls1, s2))
           | _ \<Rightarrow> (Some TypeError, l # ls, s))
      | _ \<Rightarrow>
          (let (e, ls1, s2) = createLines rnd minWeight maxWeight ns ls s
           in (e, l # ls1, s2)))"

text \<open>
  \<open>renderGraph3D(graph)\<close>, lines 63 to 189; \<open>None\<close> is a graph that is \<open>undefined\<close> or
  \<open>null\<close>, of which \<open>graph.nodes\<close> throws. The result is the exception thrown, if any, and the
  state the call leaves.

  Line 136 stops the simulation before. Lines 138 to 188 build the new one, and what the
  force library does there is not decided here: \<open>built\<close> is the exception that the chain of
  calls throws, if any (the link force of d3 throws an \<open>Error\<close> when the source or the target
  of a link is the id of no node). When it throws, the variable \<open>simulation\<close> is not assigned
  and no tick handler is registered; otherwise the new simulation runs, with the tick
  handler closed over \<open>graph\<close>, \<open>minWeight\<close> and \<open>maxWeight\<close>. What the library writes on
  the nodes and links it is given (\<open>index\<close>, the velocities, the node objects in place of
  the ids in \<open>source\<close> and \<open>target\<close>) is never read by the program and is left out.
\<close>

definition renderGraph3D :: "rounding \<Rightarrow> (nat \<Rightarrow> real) \<Rightarrow> exn option \<Rightarrow> graph option \<Rightarrow> state \<Rightarrow> exn option \<times> state" where
  "renderGraph3D rnd rand built graph s =
     (case loadedFont s of
        None \<Rightarrow> (None, s\<lparr>console := console s @ [Warn ''Font not loaded yet, skipping render'']\<rparr>)
      | Some f \<Rightarrow>
          (let s1 = s\<lparr>currentGraph := graph, children := []\<rparr>
           in (case graph of
                 None \<Rightarrow> (Some TypeError, s1)
               | Some g \<Rightarrow>
                   (let (ns, s2) = initNodes f rnd rand 0 (nodes g) s1;
                        ls = map (bindLink ns) (links g);
                        weights = map linkWeight ls;
                        minWeight = Math_min weights;
                        maxWeight = Math_max weights;
                        (e, ls1, s3) = createLines rnd minWeight maxWeight ns ls s2;
                        s4 = s3\<lparr>currentGraph := Some \<lparr>nodes = ns, links = ls1\<rparr>\<rparr>
                    in (case e of
                          Some err \<Rightarrow> (Some err, s4)
                        | None \<Rightarrow>
                            (let s5 = s4\<lparr>simulation := map_option stop (simulation s4)\<rparr>
                             in (case built of
                                   Some err \<Rightarrow> (Some err, s5)
                                 | None \<Rightarrow>
                                     (None, s5\<lparr>simulation :=
                                        Some \<lparr>sim_graph = \<lparr>nodes = ns, links = ls1\<rparr>,
                                              sim_minWeight = minWeight, sim_maxWeight = maxWeight,
                                              running = True\<rparr>\<rparr>))))))))"

subsection \<open>The simulation\<close>

text \<open>
  A simulation that runs moves the nodes and then calls the tick handler. What it computes
  is outside the program: \<open>pos k\<close> are the coordinates it gives to the \<open>k\<close>-th node.
\<close>

fun moveNodes :: "(nat \<Rightarrow> vec3) \<Rightarrow> nat \<Rightarrow> node list \<Rightarrow> node list" where
  "moveNodes pos k [] = []"
| "moveNodes pos k (n # ns) =
     n\<lparr>node_x := fst (pos k), node_y := fst (snd (pos k)), node_z := snd (snd (pos k))\<rparr>
       # moveNodes pos (k + 1) ns"

definition simulationStep :: "(nat \<Rightarrow> vec3) \<Rightarrow> state \<Rightarrow> state" where
  "simulationStep pos s =
     (case simulation s of
        None \<Rightarrow> s
      | Some sim \<Rightarrow>
          s\<lparr>simulation :=
              Some (sim\<lparr>sim_graph := (sim_graph sim)\<lparr>nodes := moveNodes pos 0 (nodes (sim_graph sim))\<rparr>\<rparr>)\<rparr>)"

text \<open>Lines 145 to 149.\<close>

fun updateNodes :: "node list \<Rightarrow> state \<Rightarrow> state" where
  "updateNodes [] s = s"
| "updateNodes (n # ns) s =
     updateNodes ns
       (case mesh n of
          None \<Rightarrow> s
        | Some m \<Rightarrow> s\<lparr>meshes := (meshes s)(m := (meshes s m)\<lparr>position := (node_x n, node_y n, node_z n)\<rparr>)\<rparr>)"

text \<open>
  Lines 164 to 175: the first two points of the position attribute are overwritten when it
  has two points at least, otherwise the attribute is rebuilt from the two points; the
  attribute keeps the coordinates in single precision. Then the colour and the weight are
  set.
\<close>

definition updateLine :: "ref \<Rightarrow> vec3 list \<Rightarrow> vec3 \<Rightarrow> vec3 \<Rightarrow> int \<Rightarrow> num \<Rightarrow> state \<Rightarrow> state" where
  "updateLine r pts p1 p2 colorHex w s =
     (let pts1 = (if 2 \<le> length pts then pts[0 := fround3 p1, 1 := fround3 p2]
                  else [fround3 p1, fround3 p2])
      in s\<lparr>lines := (lines s)(r := (lines s r)\<lparr>points := Some pts1, line_color := colorHex,
              ud_weight := w\<rparr>)\<rparr>)"

text \<open>Lines 152 to 187.\<close>

fun updateLinks :: "rounding \<Rightarrow> num \<Rightarrow> num \<Rightarrow> node list \<Rightarrow> link list \<Rightarrow> state \<Rightarrow> exn option \<times> link list \<times> state" where
  "updateLinks rnd minWeight maxWeight ns [] s = (None, [], s)"
| "updateLinks rnd minWeight maxWeight ns (l # ls) s =
     (case (sourceObj l, targetObj l) of
        (Some i, Some j) \<Rightarrow>
          (case (nodeMesh ns i, nodeMesh ns j) of
             (Some mi, Some mj) \<Rightarrow>
               (let p1 = position (meshes s mi);
                    p2 = position (meshes s mj);
                    w = linkWeight l;
                    colorHex = getColorForWeight rnd w minWeight maxWeight;
                    (l1, s1) =
                      (case line l of
                         None \<Rightarrow> (l\<lparr>line := Some (nextLine s)\<rparr>, newLine rnd minWeight maxWeight l i j mi mj s)
                       | Some r \<Rightarrow>
                           (case points (lines s r) of
                              None \<Rightarrow> (l\<lparr>line := Some (nextLine s)\<rparr>, newLine rnd minWeight maxWeight l i j mi mj s)
                            | Some pts \<Rightarrow> (l, updateLine r pts p1 p2 colorHex w s)));
                    (e, ls1, s2) = updateLinks rnd minWeight maxWeight ns ls s1
                in (e, l1 # ls1, s2))
           | _ \<Rightarrow> (Some TypeError, l # ls, s))
      | _ \<Rightarrow>
          (let (e, ls1, s2) = updateLinks rnd minWeight maxWeight ns ls s
           in (e, l # ls1, s2)))"

text \<open>The tick handler of the simulation that runs, lines 143 to 188.\<close>

definition tickHandler :: "rounding \<Rightarrow> state \<Rightarrow> exn option \<times> state" where
  "tickHandler rnd s =
     (case simulation s of
        None \<Rightarrow> (None, s)
      | Some sim \<Rightarrow>
          (let g = sim_graph sim;
               s1 = updateNodes (nodes g) s;
               (e, ls1, s2) = updateLinks rnd (sim_minWeight sim) (sim_maxWeight sim) (nodes g) (links g) s1
           in (e, s2\<lparr>simulation := Some (sim\<lparr>sim_graph := g\<lparr>links := ls1\<rparr>\<rparr>)\<rparr>)))"

text \<open>A tick of the simulation; one that has been stopped ticks no more.\<close>

definition tick :: "rounding \<Rightarrow> (nat \<Rightarrow> vec3) \<Rightarrow> state \<Rightarrow> exn option \<times> state" where
  "tick rnd pos s =
     (case simulation s of
        None \<Rightarrow> (None, s)
      | Some sim \<Rightarrow> if running sim then tickHandler rnd (simulationStep pos s) else (None, s))"

subsection \<open>The pointer\<close>

text \<open>\<open>resetHighlights\<close>, lines 256 to 270.\<close>

definition originalOrGray :: "lineObj \<Rightarrow> int" where
  "originalOrGray lobj =
     (case originalColor lobj of
        None \<Rightarrow> neutralGray
      | Some c \<Rightarrow> if c \<noteq> 0 then c else neutralGray)"

definition resetChild :: "child \<Rightarrow> state \<Rightarrow> state" where
  "resetChild c s =
     (case c of
        MeshChild m \<Rightarrow> s\<lparr>meshes := (meshes s)(m := (meshes s m)\<lparr>mesh_color := nodeColor\<rparr>)\<rparr>
      | LineChild r \<Rightarrow>
          s\<lparr>lines := (lines s)(r := (lines s r)\<lparr>line_color := originalOrGray (lines s r),
                opacity := 9 / 10\<rparr>)\<rparr>)"

definition resetHighlights :: "state \<Rightarrow> state" where
  "resetHighlights s = (fold resetChild (children s) s)\<lparr>highlightedNode := None\<rparr>"

definition highlightLine :: "ref \<Rightarrow> state \<Rightarrow> state" where
  "highlightLine r s = s\<lparr>lines := (lines s)(r := (lines s r)\<lparr>line_color := highlightColor\<rparr>)\<rparr>"

text \<open>
  The \<open>mousemove\<close> handler, lines 222 to 254. \<open>intersects\<close> are the objects that the ray
  meets, nearest first: the ray caster is given the node meshes of the group and returns
  some of them. The id of the mesh is assigned to \<open>tooltip.innerHTML\<close>. The place of the
  tooltip (\<open>style.left\<close>, \<open>style.top\<close>), which comes from the projection of the camera, is
  left out.
\<close>

definition mousemove :: "ref list \<Rightarrow> state \<Rightarrow> state" where
  "mousemove intersects s =
     (case intersects of
        obj # rest \<Rightarrow>
          (let s1 = s\<lparr>tooltip := \<lparr>assignedHTML = ud_id (meshes s obj), visibility = ''visible''\<rparr>\<rparr>
           in if highlightedNode s1 \<noteq> Some obj
              then (let s2 = resetHighlights s1;
                        s3 = s2\<lparr>meshes := (meshes s2)(obj := (meshes s2 obj)\<lparr>mesh_color := highlightColor\<rparr>)\<rparr>;
                        s4 = fold highlightLine (ud_links (meshes s3 obj)) s3
                    in s4\<lparr>highlightedNode := Some obj\<rparr>)
              else s1)
      | [] \<Rightarrow> resetHighlights (s\<lparr>tooltip := (tooltip s)\<lparr>visibility := ''hidden''\<rparr>\<rparr>))"

subsection \<open>The network\<close>

text \<open>
  What a request comes back with: \<open>fetch\<close> rejects, \<open>res.json()\<close> rejects, or the body is
  parsed. The body of \<open>/api/submit\<close> is \<open>null\<close> or an object whose field \<open>graph\<close> is a graph or
  is missing; the body of \<open>/api/graph\<close> is a graph or \<open>null\<close>.
\<close>

datatype 'a fetched = FetchRejected | JsonRejected | Json 'a

datatype submitData = DataNull | Data "graph option"

text \<open>\<open>submitDream\<close>, lines 193 to 207, when the request has come back.\<close>

definition submitDream :: "rounding \<Rightarrow> (nat \<Rightarrow> real) \<Rightarrow> exn option \<Rightarrow> submitData fetched \<Rightarrow> state \<Rightarrow> state" where
  "submitDream rnd rand built res s =
     (case res of
        FetchRejected \<Rightarrow> s\<lparr>console := console s @ [Error ''Fetch error:'' FetchError]\<rparr>
      | JsonRejected \<Rightarrow> s\<lparr>console := console s @ [Error ''Fetch error:'' SyntaxError]\<rparr>
      | Json DataNull \<Rightarrow> s\<lparr>console := console s @ [Error ''Fetch error:'' TypeError]\<rparr>
      | Json (Data graph) \<Rightarrow>
          (case renderGraph3D rnd rand built graph s of
             (None, s1) \<Rightarrow> s1
           | (Some err, s1) \<Rightarrow> s1\<lparr>console := console s1 @ [Error ''Fetch error:'' err]\<rparr>))"

text \<open>\<open>loadInitialGraph\<close>, lines 210 to 217, when the request has come back.\<close>

definition loadInitialGraph :: "rounding \<Rightarrow> (nat \<Rightarrow> real) \<Rightarrow> exn option \<Rightarrow> graph option fetched \<Rightarrow> state \<Rightarrow> state" where
  "loadInitialGraph rnd rand built res s =
     (case res of
        FetchRejected \<Rightarrow> s\<lparr>console := console s @ [Error ''Graph load error:'' FetchError]\<rparr>
      | JsonRejected \<Rightarrow> s\<lparr>console := console s @ [Error ''Graph load error:'' SyntaxError]\<rparr>
      | Json graph \<Rightarrow>
          (case renderGraph3D rnd rand built graph s of
             (None, s1) \<Rightarrow> s1
           | (Some err, s1) \<Rightarrow> s1\<lparr>console := console s1 @ [Error ''Graph load error:'' err]\<rparr>))"

subsection \<open>The states of the page\<close>

text \<open>
  The states that the page can be in: the callbacks run one at a time, in any order. A
  pointer event meets only node meshes of the group.
\<close>

definition nodeMeshes :: "state \<Rightarrow> ref set" where
  "nodeMeshes s = {m. MeshChild m \<in> set (children s)}"

inductive reachable :: "rounding \<Rightarrow> state \<Rightarrow> bool" for rnd :: rounding where
  reach_init: "reachable rnd initialState"
| reach_font: "reachable rnd s \<Longrightarrow> reachable rnd (fontLoaded f s)"
| reach_submit: "reachable rnd s \<Longrightarrow> reachable rnd (submitDream rnd rand built res s)"
| reach_load: "reachable rnd s \<Longrightarrow> reachable rnd (loadInitialGraph rnd rand built res' s)"
| reach_tick: "reachable rnd s \<Longrightarrow> reachable rnd (snd (tick rnd pos s))"
| reach_mouse: "reachable rnd s \<Longrightarrow> set intersects \<subseteq> nodeMeshes s \<Longrightarrow> reachable rnd (mousemove intersects s)"

subsection \<open>Snapshots to run the program on\<close>

text \<open>
  The example snapshot: the nodes a, b, c and the links a-b of weight 1, b-c of weight 5
  and a-x of weight 3, whose target is no node.
\<close>

definition exampleGraph :: graph where
  "exampleGraph = \<lparr>nodes = [jsonNode ''a'', jsonNode ''b'', jsonNode ''c''], links = exampleLinks\<rparr>"

text \<open>The same snapshot with the third link of weight 9, and without the third link.\<close>

definition heavyGraph :: graph where
  "heavyGraph =
     \<lparr>nodes = [jsonNode ''a'', jsonNode ''b'', jsonNode ''c''],
      links = [jsonLink ''a'' ''b'' (Some (Fin 1)) None, jsonLink ''b'' ''c'' (Some (Fin 5)) None,
               jsonLink ''a'' ''x'' (Some (Fin 9)) None]\<rparr>"

definition resolvedGraph :: graph where
  "resolvedGraph =
     \<lparr>nodes = [jsonNode ''a'', jsonNode ''b'', jsonNode ''c''],
      links = [jsonLink ''a'' ''b'' (Some (Fin 1)) None, jsonLink ''b'' ''c'' (Some (Fin 5)) None]\<rparr>"

text \<open>
  The snapshot with the links a-b of weight 3, b-c of weight 5 and a-x of weight 1, whose
  target is no node; and the same snapshot without the third link.
\<close>

definition lightGraph :: graph where
  "lightGraph =
     \<lparr>nodes = [jsonNode ''a'', jsonNode ''b'', jsonNode ''c''],
      links = [jsonLink ''a'' ''b'' (Some (Fin 3)) None, jsonLink ''b'' ''c'' (Some (Fin 5)) None,
               jsonLink ''a'' ''x'' (Some (Fin 1)) None]\<rparr>"

definition pairGraph :: graph where
  "pairGraph =
     \<lparr>nodes = [jsonNode ''a'', jsonNode ''b'', jsonNode ''c''],
      links = [jsonLink ''a'' ''b'' (Some (Fin 3)) None, jsonLink ''b'' ''c'' (Some (Fin 5)) None]\<rparr>"

definition noDraw :: "nat \<Rightarrow> real" where
  "noDraw k = 1 / 2"

text \<open>
  The page with the font loaded; what \<open>renderGraph3D\<close> leaves of it for the example
  snapshot, for which the force library throws; and the page after \<open>loadInitialGraph\<close> has
  got the snapshot without the third link, for which the simulation is built.
\<close>

definition loadedPage :: state where
  "loadedPage = fontLoaded ''helvetiker'' initialState"

definition exampleState :: state where
  "exampleState = snd (renderGraph3D exact noDraw (Some ForceError) (Some exampleGraph) loadedPage)"

definition resolvedState :: state where
  "resolvedState = loadInitialGraph exact noDraw None (Json (Some resolvedGraph)) loadedPage"

text \<open>
  The page after \<open>loadInitialGraph\<close> has got the snapshot of the nodes a, b, c with the
  links a-b of weight \<open>-2^1023\<close> and b-c of weight \<open>2^1023\<close>.
\<close>

definition hugeGraph :: graph where
  "hugeGraph = \<lparr>nodes = [jsonNode ''a'', jsonNode ''b'', jsonNode ''c''], links = hugeLinks\<rparr>"

definition hugeState :: state where
  "hugeState = loadInitialGraph exact noDraw None (Json (Some hugeGraph)) loadedPage"

text \<open>
  The positions that the simulation computes on a tick; the page of the second snapshot
  after the pointer has met the mesh of node b; and that page after a tick.
\<close>

definition drift :: "nat \<Rightarrow> vec3" where
  "drift k = (Fin (33554433 + real k), Fin 2, Fin 3)"

definition hoveredState :: state where
  "hoveredState = mousemove [1] resolvedState"

definition tickedState :: state where
  "tickedState = snd (tick exact drift hoveredState)"

section \<open>Describing what the program has done\<close>

text \<open>
  The definitions of this section are not translations of the source. They describe the
  results of its loops in closed form and state the invariants of the page; the lemmas
  below prove that the program computes what they describe.
\<close>

definition resolvedL :: "link \<Rightarrow> bool" where
  "resolvedL l = (sourceObj l \<noteq> None \<and> targetObj l \<noteq> None)"

fun placeNodes :: "rounding \<Rightarrow> (nat \<Rightarrow> real) \<Rightarrow> nat \<Rightarrow> ref \<Rightarrow> node list \<Rightarrow> node list" where
  "placeNodes rnd rand k m [] = []"
| "placeNodes rnd rand k m (n # ns) =
     n\<lparr>mesh := Some m, node_x := startAt rnd (rand (3 * k)),
       node_y := startAt rnd (rand (3 * k + 1)),
       node_z := startAt rnd (rand (3 * k + 2))\<rparr> # placeNodes rnd rand (k + 1) (m + 1) ns"

fun addMeshes :: "font \<Rightarrow> ref \<Rightarrow> node list \<Rightarrow> (ref \<Rightarrow> meshObj) \<Rightarrow> (ref \<Rightarrow> meshObj)" where
  "addMeshes f m [] M = M"
| "addMeshes f m (n # ns) M = addMeshes f (m + 1) ns (M(m := textMesh f (node_id n)))"

fun attachLines :: "ref \<Rightarrow> link list \<Rightarrow> link list" where
  "attachLines r [] = []"
| "attachLines r (l # ls) =
     (if resolvedL l then l\<lparr>line := Some r\<rparr> # attachLines (r + 1) ls else l # attachLines r ls)"

fun incident :: "node list \<Rightarrow> ref \<Rightarrow> link list \<Rightarrow> ref list" where
  "incident ns m [] = []"
| "incident ns m (l # ls) =
     (case (sourceObj l, targetObj l, line l) of
        (Some i, Some j, Some r) \<Rightarrow>
          (if nodeMesh ns i = Some m then [r] else []) @ (if nodeMesh ns j = Some m then [r] else [])
      | _ \<Rightarrow> []) @ incident ns m ls"

definition meshesBound :: "node list \<Rightarrow> link list \<Rightarrow> bool" where
  "meshesBound ns ls =
     (\<forall>l \<in> set ls. \<forall>i j. sourceObj l = Some i \<longrightarrow> targetObj l = Some j \<longrightarrow>
        (\<exists>mi mj. nodeMesh ns i = Some mi \<and> nodeMesh ns j = Some mj))"

definition lineFor :: "rounding \<Rightarrow> num \<Rightarrow> num \<Rightarrow> link \<Rightarrow> nat \<Rightarrow> nat \<Rightarrow> vec3 \<Rightarrow> vec3 \<Rightarrow> lineObj" where
  "lineFor rnd mn mx l i j p1 p2 =
     \<lparr>points = Some [fround3 p1, fround3 p2], line_color = getColorForWeight rnd (linkWeight l) mn mx, transparent = True,
      opacity = 9 / 10, ud_source = i, ud_target = j, ud_weight = linkWeight l,
      originalColor = Some (getColorForWeight rnd (linkWeight l) mn mx)\<rparr>"

definition resolves :: "node list \<Rightarrow> link \<Rightarrow> bool" where
  "resolves ns l = (findNode ns (source l) \<noteq> None \<and> findNode ns (target l) \<noteq> None)"

definition renderedNodes :: "rounding \<Rightarrow> (nat \<Rightarrow> real) \<Rightarrow> graph \<Rightarrow> state \<Rightarrow> node list" where
  "renderedNodes rnd rand g s = placeNodes rnd rand 0 (nextMesh s) (nodes g)"

definition renderedLinks :: "rounding \<Rightarrow> (nat \<Rightarrow> real) \<Rightarrow> graph \<Rightarrow> state \<Rightarrow> link list" where
  "renderedLinks rnd rand g s =
     attachLines (nextLine s) (map (bindLink (renderedNodes rnd rand g s)) (links g))"

definition renderedGraph :: "rounding \<Rightarrow> (nat \<Rightarrow> real) \<Rightarrow> graph \<Rightarrow> state \<Rightarrow> graph" where
  "renderedGraph rnd rand g s = \<lparr>nodes = renderedNodes rnd rand g s, links = renderedLinks rnd rand g s\<rparr>"

definition renderedSim :: "rounding \<Rightarrow> (nat \<Rightarrow> real) \<Rightarrow> exn option \<Rightarrow> graph \<Rightarrow> state \<Rightarrow> simulationObj option" where
  "renderedSim rnd rand built g s =
     (case built of
        None \<Rightarrow>
          Some \<lparr>sim_graph = renderedGraph rnd rand g s,
                sim_minWeight = Math_min (map linkWeight (links g)),
                sim_maxWeight = Math_max (map linkWeight (links g)), running = True\<rparr>
      | Some err \<Rightarrow> map_option stop (simulation s))"

definition afterNodes :: "font \<Rightarrow> graph \<Rightarrow> state \<Rightarrow> state" where
  "afterNodes f g s =
     s\<lparr>currentGraph := Some g,
       meshes := addMeshes f (nextMesh s) (nodes g) (meshes s),
       nextMesh := nextMesh s + length (nodes g),
       children := map MeshChild [nextMesh s..<nextMesh s + length (nodes g)]\<rparr>"

fun placeMeshes :: "node list \<Rightarrow> (ref \<Rightarrow> meshObj) \<Rightarrow> (ref \<Rightarrow> meshObj)" where
  "placeMeshes [] M = M"
| "placeMeshes (n # ns) M =
     placeMeshes ns
       (case mesh n of
          None \<Rightarrow> M
        | Some m \<Rightarrow> M(m := (M m)\<lparr>position := (node_x n, node_y n, node_z n)\<rparr>))"

fun syncLines :: "rounding \<Rightarrow> num \<Rightarrow> num \<Rightarrow> node list \<Rightarrow> (ref \<Rightarrow> meshObj) \<Rightarrow> link list \<Rightarrow> (ref \<Rightarrow> lineObj) \<Rightarrow> (ref \<Rightarrow> lineObj)" where
  "syncLines rnd mn mx ns M [] L = L"
| "syncLines rnd mn mx ns M (l # ls) L =
     syncLines rnd mn mx ns M ls
       (case (sourceObj l, targetObj l, line l) of
          (Some i, Some j, Some r) \<Rightarrow>
            (case (nodeMesh ns i, nodeMesh ns j) of
               (Some mi, Some mj) \<Rightarrow>
                 L(r := (L r)\<lparr>points := Some [fround3 (position (M mi)), fround3 (position (M mj))],
                      line_color := getColorForWeight rnd (linkWeight l) mn mx, ud_weight := linkWeight l\<rparr>)
             | _ \<Rightarrow> L)
        | _ \<Rightarrow> L)"

definition twoPoints :: "lineObj \<Rightarrow> bool" where
  "twoPoints x = (\<exists>pts. points x = Some pts \<and> length pts = 2)"

definition drawn :: "(ref \<Rightarrow> lineObj) \<Rightarrow> link list \<Rightarrow> bool" where
  "drawn L ls = (\<forall>l \<in> set ls. resolvedL l \<longrightarrow> (\<exists>r. line l = Some r \<and> twoPoints (L r)))"

definition graphOK :: "(ref \<Rightarrow> lineObj) \<Rightarrow> graph \<Rightarrow> bool" where
  "graphOK L g =
     (None \<notin> mesh ` set (nodes g) \<and> distinct (map mesh (nodes g))
      \<and> (\<forall>l \<in> set (links g). (\<forall>i. sourceObj l = Some i \<longrightarrow> i < length (nodes g))
            \<and> (\<forall>j. targetObj l = Some j \<longrightarrow> j < length (nodes g)))
      \<and> drawn L (links g) \<and> distinct (map line (filter resolvedL (links g))))"

definition simOK :: "state \<Rightarrow> bool" where
  "simOK s = (\<forall>sim. simulation s = Some sim \<longrightarrow> running sim \<longrightarrow> graphOK (lines s) (sim_graph sim))"

definition allocOK :: "state \<Rightarrow> bool" where
  "allocOK s =
     ((\<forall>m. MeshChild m \<in> set (children s) \<longrightarrow> m < nextMesh s)
      \<and> (\<forall>r. LineChild r \<in> set (children s) \<longrightarrow> r < nextLine s))"

definition linesOK :: "state \<Rightarrow> bool" where
  "linesOK s =
     (\<forall>r. LineChild r \<in> set (children s) \<longrightarrow>
        (\<exists>c. originalColor (lines s r) = Some c \<and> c \<noteq> highlightColor))"

definition resetMesh :: "meshObj \<Rightarrow> meshObj" where
  "resetMesh x = x\<lparr>mesh_color := nodeColor\<rparr>"

definition resetLine :: "lineObj \<Rightarrow> lineObj" where
  "resetLine x = x\<lparr>line_color := originalOrGray x, opacity := 9 / 10\<rparr>"

definition paintLine :: "lineObj \<Rightarrow> lineObj" where
  "paintLine x = x\<lparr>line_color := highlightColor\<rparr>"

definition hoverMeshes :: "ref \<Rightarrow> state \<Rightarrow> ref \<Rightarrow> meshObj" where
  "hoverMeshes obj s m =
     (if m = obj
      then (if MeshChild obj \<in> set (children s) then resetMesh (meshes s obj) else meshes s obj)
             \<lparr>mesh_color := highlightColor\<rparr>
      else if MeshChild m \<in> set (children s) then resetMesh (meshes s m) else meshes s m)"

definition hoverLines :: "ref \<Rightarrow> state \<Rightarrow> ref \<Rightarrow> lineObj" where
  "hoverLines obj s r =
     (if r \<in> set (ud_links (meshes s obj))
      then paintLine (if LineChild r \<in> set (children s) then resetLine (lines s r) else lines s r)
      else if LineChild r \<in> set (children s) then resetLine (lines s r) else lines s r)"

definition ticked :: "rounding \<Rightarrow> (nat \<Rightarrow> vec3) \<Rightarrow> simulationObj \<Rightarrow> state \<Rightarrow> state" where
  "ticked rnd pos sim s =
     (let ns = moveNodes pos 0 (nodes (sim_graph sim));
          M = placeMeshes ns (meshes s)
      in s\<lparr>simulation := Some (sim\<lparr>sim_graph := (sim_graph sim)\<lparr>nodes := ns\<rparr>\<rparr>),
           meshes := M,
           lines := syncLines rnd (sim_minWeight sim) (sim_maxWeight sim) ns M
                      (links (sim_graph sim)) (lines s)\<rparr>)"

text \<open>
  The colour of the material of a child; a child as \<open>resetHighlights\<close> leaves it (a line
  then has the colour recorded for it, or the neutral gray when none is recorded or the
  one recorded is 0, which counts as false); a line for which a colour is recorded; and the
  children that the pointer highlights when it meets the mesh \<open>obj\<close>: the mesh and the lines
  of its list.
\<close>

definition childColor :: "state \<Rightarrow> child \<Rightarrow> int" where
  "childColor s c = (case c of MeshChild m \<Rightarrow> mesh_color (meshes s m) | LineChild r \<Rightarrow> line_color (lines s r))"

definition atRest :: "state \<Rightarrow> child \<Rightarrow> bool" where
  "atRest s c =
     (case c of
        MeshChild m \<Rightarrow> mesh_color (meshes s m) = nodeColor
      | LineChild r \<Rightarrow>
          line_color (lines s r) = originalOrGray (lines s r) \<and> opacity (lines s r) = 9 / 10)"

definition recorded :: "state \<Rightarrow> child \<Rightarrow> bool" where
  "recorded s c =
     (case c of
        MeshChild m \<Rightarrow> True
      | LineChild r \<Rightarrow> originalColor (lines s r) \<noteq> None)"

definition hovered :: "ref \<Rightarrow> state \<Rightarrow> child \<Rightarrow> bool" where
  "hovered obj s c = (c = MeshChild obj \<or> c \<in> LineChild ` set (ud_links (meshes s obj)))"


section \<open>Properties of the colour mapping\<close>

subsection \<open>Rounding\<close>

lemma mono_quarters: "mono quarters"
  unfolding quarters_def mono_def
  by (auto intro!: divide_right_mono floor_mono)

lemma roundingOK_quarters: "roundingOK quarters"
  by (simp add: roundingOK_def mono_quarters) (simp add: quarters_def)

lemma roundingOK_exact: "roundingOK exact"
  by (simp add: roundingOK_def mono_def exact_def)

lemma rnd_mono: "roundingOK rnd \<Longrightarrow> x \<le> y \<Longrightarrow> rnd x \<le> rnd y"
  by (simp add: roundingOK_def mono_def)

lemma rnd_nonneg: "roundingOK rnd \<Longrightarrow> 0 \<le> x \<Longrightarrow> 0 \<le> rnd x"
  using rnd_mono [of rnd 0 x] by (simp add: roundingOK_def)

lemma rnd_le_1: "roundingOK rnd \<Longrightarrow> x \<le> 1 \<Longrightarrow> rnd x \<le> 1"
  using rnd_mono [of rnd x 1] by (simp add: roundingOK_def)

lemma rnd_le_255: "roundingOK rnd \<Longrightarrow> x \<le> 255 \<Longrightarrow> rnd x \<le> 255"
  using rnd_mono [of rnd x 255] by (simp add: roundingOK_def)

lemma maxDouble_large: "2 ^ 1023 \<le> maxDouble"
proof -
  have "(2::real) ^ 971 \<le> 2 ^ 1023" by (rule power_increasing) simp_all
  moreover have "(2::real) ^ 1024 = 2 * 2 ^ 1023" by simp
  ultimately show ?thesis unfolding maxDouble_def by linarith
qed

lemma maxDouble_less: "maxDouble < 2 ^ 1024"
  by (simp add: maxDouble_def)

lemma small_le_maxDouble: "x \<le> 2 ^ 64 \<Longrightarrow> x \<le> maxDouble"
proof -
  assume "x \<le> 2 ^ 64"
  moreover have "(2::real) ^ 64 \<le> 2 ^ 1023" by (rule power_increasing) simp_all
  ultimately show ?thesis using maxDouble_large by linarith
qed

lemma rd_small: "\<bar>rnd x\<bar> \<le> 2 ^ 64 \<Longrightarrow> rd rnd x = Fin (rnd x)"
proof -
  assume a: "\<bar>rnd x\<bar> \<le> 2 ^ 64"
  then have "rnd x \<le> maxDouble" "- rnd x \<le> maxDouble"
    by (auto intro!: small_le_maxDouble)
  then show ?thesis by (auto simp: rd_def)
qed

lemma rd_exact_overflow: "2 ^ 1024 \<le> x \<Longrightarrow> rd exact x = PInf"
  using maxDouble_less by (simp add: rd_def exact_def)

lemma rd_not_NaN [simp]: "rd rnd x \<noteq> NaN"
  by (simp add: rd_def)

lemma rd_cases:
  obtains (fin) "rd rnd x = Fin (rnd x)" "- maxDouble \<le> rnd x" "rnd x \<le> maxDouble"
  | (pinf) "rd rnd x = PInf" "maxDouble < rnd x"
  | (ninf) "rd rnd x = NInf" "rnd x < - maxDouble"
  by (cases "maxDouble < rnd x"; cases "rnd x < - maxDouble") (auto simp: rd_def)

lemma maxDouble_pos: "0 < maxDouble"
  using maxDouble_large by (smt (verit) zero_less_power)

lemma rd_mono:
  assumes "roundingOK rnd" "x \<le> y"
  shows "num_le (rd rnd x) (rd rnd y)"
  using rnd_mono [OF assms] maxDouble_pos by (auto simp: rd_def)

lemma rd_nonneg:
  assumes "roundingOK rnd" "0 \<le> x"
  shows "rd rnd x = PInf \<or> (rd rnd x = Fin (rnd x) \<and> 0 \<le> rnd x \<and> rnd x \<le> maxDouble)"
  using rnd_nonneg [OF assms] maxDouble_pos by (auto simp: rd_def)

lemma rd_unit:
  assumes "roundingOK rnd" "0 \<le> x" "x \<le> 1"
  shows "rd rnd x = Fin (rnd x) \<and> 0 \<le> rnd x \<and> rnd x \<le> 1"
proof -
  have "0 \<le> rnd x" "rnd x \<le> 1" using assms by (auto intro: rnd_nonneg rnd_le_1)
  then show ?thesis by (simp add: rd_small)
qed

lemma rd_byte:
  assumes "roundingOK rnd" "0 \<le> x" "x \<le> 255"
  shows "rd rnd x = Fin (rnd x) \<and> 0 \<le> rnd x \<and> rnd x \<le> 255"
proof -
  have "0 \<le> rnd x" "rnd x \<le> 255" using assms by (auto intro: rnd_nonneg rnd_le_255)
  then show ?thesis by (simp add: rd_small)
qed

subsection \<open>The order of the numbers\<close>

lemma num_le_refl: "a \<noteq> NaN \<Longrightarrow> num_le a a"
  by (cases a) simp_all

lemma num_le_trans: "num_le a b \<Longrightarrow> num_le b c \<Longrightarrow> num_le a c"
  by (cases a; cases b; cases c) simp_all

lemma num_le_antisym: "num_le a b \<Longrightarrow> num_le b a \<Longrightarrow> a = b"
  by (cases a; cases b) simp_all

lemma num_le_total: "a \<noteq> NaN \<Longrightarrow> b \<noteq> NaN \<Longrightarrow> num_le a b \<or> num_le b a"
  by (cases a; cases b) auto

lemma num_le_not_NaN: "num_le a b \<Longrightarrow> a \<noteq> NaN \<and> b \<noteq> NaN"
  by (cases a; cases b) simp_all

lemma num_le_NaN [simp]: "\<not> num_le a NaN"
  by (cases a) simp_all

lemma num_le_PInf [simp]: "num_le a PInf = (a \<noteq> NaN)"
  by (cases a) simp_all

lemma num_le_NInf [simp]: "num_le NInf b = (b \<noteq> NaN)"
  by (cases b) simp_all

subsection \<open>Minimum and maximum\<close>

lemma fold_jsMin:
  assumes "NaN \<notin> set ws" "acc \<noteq> NaN"
  shows "fold jsMin ws acc \<noteq> NaN \<and> num_le (fold jsMin ws acc) acc
       \<and> (\<forall>w \<in> set ws. num_le (fold jsMin ws acc) w)
       \<and> (fold jsMin ws acc = acc \<or> fold jsMin ws acc \<in> set ws)"
  using assms
proof (induction ws arbitrary: acc)
  case Nil
  then show ?case by (simp add: num_le_refl)
next
  case (Cons w ws)
  let ?a = "jsMin w acc"
  from Cons.prems have w: "w \<noteq> NaN" and n: "NaN \<notin> set ws" by auto
  have a: "?a \<noteq> NaN" "num_le ?a acc" "num_le ?a w" "?a = acc \<or> ?a = w"
    using w Cons.prems(2) num_le_total [of w acc] by (auto simp: jsMin_def num_le_refl)
  from Cons.IH [OF n a(1)] a show ?case
    by (auto intro: num_le_trans)
qed

lemma fold_jsMax:
  assumes "NaN \<notin> set ws" "acc \<noteq> NaN"
  shows "fold jsMax ws acc \<noteq> NaN \<and> num_le acc (fold jsMax ws acc)
       \<and> (\<forall>w \<in> set ws. num_le w (fold jsMax ws acc))
       \<and> (fold jsMax ws acc = acc \<or> fold jsMax ws acc \<in> set ws)"
  using assms
proof (induction ws arbitrary: acc)
  case Nil
  then show ?case by (simp add: num_le_refl)
next
  case (Cons w ws)
  let ?a = "jsMax w acc"
  from Cons.prems have w: "w \<noteq> NaN" and n: "NaN \<notin> set ws" by auto
  have a: "?a \<noteq> NaN" "num_le acc ?a" "num_le w ?a" "?a = acc \<or> ?a = w"
    using w Cons.prems(2) num_le_total [of w acc] by (auto simp: jsMax_def num_le_refl)
  from Cons.IH [OF n a(1)] a show ?case
    by (auto intro: num_le_trans)
qed

lemma Math_min_le: "NaN \<notin> set ws \<Longrightarrow> w \<in> set ws \<Longrightarrow> num_le (Math_min ws) w"
  using fold_jsMin [of ws PInf] by (simp add: Math_min_def)

lemma Math_max_ge: "NaN \<notin> set ws \<Longrightarrow> w \<in> set ws \<Longrightarrow> num_le w (Math_max ws)"
  using fold_jsMax [of ws NInf] by (simp add: Math_max_def)

lemma Math_min_in: "NaN \<notin> set ws \<Longrightarrow> ws \<noteq> [] \<Longrightarrow> Math_min ws \<in> set ws"
proof -
  assume n: "NaN \<notin> set ws" and e: "ws \<noteq> []"
  then obtain w where w: "w \<in> set ws" by (cases ws) auto
  from fold_jsMin [OF n, of PInf] have c: "Math_min ws = PInf \<or> Math_min ws \<in> set ws"
    and l: "num_le (Math_min ws) w" using w by (auto simp: Math_min_def)
  show ?thesis
  proof (cases "Math_min ws = PInf")
    case True
    with l have "w = PInf" by (cases w) simp_all
    with w True show ?thesis by simp
  next
    case False
    with c show ?thesis by simp
  qed
qed

lemma Math_max_in: "NaN \<notin> set ws \<Longrightarrow> ws \<noteq> [] \<Longrightarrow> Math_max ws \<in> set ws"
proof -
  assume n: "NaN \<notin> set ws" and e: "ws \<noteq> []"
  then obtain w where w: "w \<in> set ws" by (cases ws) auto
  from fold_jsMax [OF n, of NInf] have c: "Math_max ws = NInf \<or> Math_max ws \<in> set ws"
    and l: "num_le w (Math_max ws)" using w by (auto simp: Math_max_def)
  show ?thesis
  proof (cases "Math_max ws = NInf")
    case True
    with l have "w = NInf" by (cases w) simp_all
    with w True show ?thesis by simp
  next
    case False
    with c show ?thesis by simp
  qed
qed

lemma Math_min_empty [simp]: "Math_min [] = PInf"
  by (simp add: Math_min_def)

lemma Math_max_empty [simp]: "Math_max [] = NInf"
  by (simp add: Math_max_def)

subsection \<open>The weight expression\<close>

lemma linkWeight_not_falsy: "\<not> falsy (linkWeight l)"
  by (auto simp: linkWeight_def orOne_def falsy_def split: option.splits)

lemma linkWeight_not_NaN [simp]: "linkWeight l \<noteq> NaN" "NaN \<noteq> linkWeight l"
  using linkWeight_not_falsy [of l] by (auto simp: falsy_def)

lemma weights_not_NaN [simp]: "NaN \<notin> set (map linkWeight ls)"
  by auto

lemma weight_between:
  assumes "l \<in> set ls"
  shows "num_le (Math_min (map linkWeight ls)) (linkWeight l)"
    and "num_le (linkWeight l) (Math_max (map linkWeight ls))"
  using assms by (auto intro!: Math_min_le Math_max_ge)

text \<open>What \<open>(l.weight ?? l.value) || 1\<close> comes to.\<close>

lemma linkWeight_cases:
  "linkWeight l =
     (case weight l of
        Some w \<Rightarrow> if w = Fin 0 \<or> w = NaN then Fin 1 else w
      | None \<Rightarrow> (case value l of Some v \<Rightarrow> if v = Fin 0 \<or> v = NaN then Fin 1 else v | None \<Rightarrow> Fin 1))
   \<and> linkWeight l = (if falsy (specWeight l) then Fin 1 else specWeight l)"
  by (simp add: linkWeight_def specWeight_def orOne_def nullish_def falsy_def split: option.splits)

subsection \<open>The normalised weight\<close>

lemma divisor_not_falsy: "\<not> falsy (divisor rnd mn mx)"
  by (simp add: divisor_def Let_def falsy_def)

lemma divisor_fin:
  assumes "roundingOK rnd" "mn \<le> mx" "jsSub rnd (Fin mx) (Fin mn) \<noteq> PInf"
  obtains y where "divisor rnd (Fin mn) (Fin mx) = Fin y" "0 < y" "rnd (mx - mn) \<le> y"
    "rnd (mx - mn) \<le> maxDouble"
proof -
  from rd_nonneg [OF assms(1), of "mx - mn"] assms(2,3)
  have d: "rd rnd (mx - mn) = Fin (rnd (mx - mn))" "0 \<le> rnd (mx - mn)" "rnd (mx - mn) \<le> maxDouble"
    by auto
  show ?thesis
  proof (cases "rnd (mx - mn) = 0")
    case True
    with d have "divisor rnd (Fin mn) (Fin mx) = Fin 1"
      by (simp add: divisor_def falsy_def)
    with True d(3) show ?thesis by (intro that [of 1]) simp_all
  next
    case False
    with d have "divisor rnd (Fin mn) (Fin mx) = Fin (rnd (mx - mn))"
      by (simp add: divisor_def falsy_def)
    with False d(2,3) show ?thesis by (intro that [of "rnd (mx - mn)"]) simp_all
  qed
qed

lemma normalized_fin:
  assumes "roundingOK rnd" "mn \<le> w" "w \<le> mx" "jsSub rnd (Fin mx) (Fin mn) \<noteq> PInf"
  obtains t where "normalized rnd (Fin w) (Fin mn) (Fin mx) = Fin t" "0 \<le> t" "t \<le> 1"
proof -
  from assms(2,3) have le: "mn \<le> mx" by simp
  from divisor_fin [OF assms(1) le assms(4)]
  obtain y where y: "divisor rnd (Fin mn) (Fin mx) = Fin y" "0 < y" "rnd (mx - mn) \<le> y"
    "rnd (mx - mn) \<le> maxDouble"
    by blast
  have lo: "0 \<le> rnd (w - mn)" using assms(1,2) by (simp add: rnd_nonneg)
  have hi: "rnd (w - mn) \<le> rnd (mx - mn)" using assms(1,3) by (simp add: rnd_mono)
  have a: "rd rnd (w - mn) = Fin (rnd (w - mn))"
    using lo hi y(4) maxDouble_pos by (simp add: rd_def)
  have q: "0 \<le> rnd (w - mn) / y" "rnd (w - mn) / y \<le> 1"
    using lo hi y(2,3) by simp_all
  from rd_unit [OF assms(1) q]
  have "normalized rnd (Fin w) (Fin mn) (Fin mx) = Fin (rnd (rnd (w - mn) / y))"
    "0 \<le> rnd (rnd (w - mn) / y)" "rnd (rnd (w - mn) / y) \<le> 1"
    using y(2) by (simp_all add: normalized_def a y(1))
  then show ?thesis by (rule that)
qed

lemma normalized_overflow:
  assumes "roundingOK rnd" "mn \<le> w" "jsSub rnd (Fin mx) (Fin mn) = PInf"
  shows "normalized rnd (Fin w) (Fin mn) (Fin mx) = NaN
       \<or> normalized rnd (Fin w) (Fin mn) (Fin mx) = Fin 0"
proof -
  have d: "divisor rnd (Fin mn) (Fin mx) = PInf"
    using assms(3) by (simp add: divisor_def falsy_def)
  from rd_nonneg [OF assms(1), of "w - mn"] assms(2)
  have "jsSub rnd (Fin w) (Fin mn) = PInf \<or> (\<exists>x. jsSub rnd (Fin w) (Fin mn) = Fin x)"
    by auto
  then show ?thesis by (auto simp: normalized_def d)
qed

lemma jsSub_nonneg:
  assumes "roundingOK rnd" "y \<le> x"
  shows "jsSub rnd (Fin x) (Fin y) = PInf \<or> (\<exists>d. jsSub rnd (Fin x) (Fin y) = Fin d \<and> 0 \<le> d)"
  using rd_nonneg [OF assms(1), of "x - y"] assms(2) by auto

text \<open>
  Between the bounds, the normalised weight is a number from 0 to 1 or it is NaN, whatever
  the bounds are.
\<close>

lemma normalized_range:
  assumes "roundingOK rnd" "num_le mn w" "num_le w mx"
  shows "normalized rnd w mn mx = NaN \<or> (\<exists>t. normalized rnd w mn mx = Fin t \<and> 0 \<le> t \<and> t \<le> 1)"
proof (cases "\<exists>a b c. mn = Fin a \<and> w = Fin b \<and> mx = Fin c")
  case True
  then obtain a b c where f: "mn = Fin a" "w = Fin b" "mx = Fin c" by blast
  with assms(2,3) have le: "a \<le> b" "b \<le> c" by simp_all
  show ?thesis
  proof (cases "jsSub rnd (Fin c) (Fin a) = PInf")
    case True
    from normalized_overflow [OF assms(1) le(1) True] show ?thesis by (auto simp: f)
  next
    case False
    from normalized_fin [OF assms(1) le False] show ?thesis unfolding f by blast
  qed
next
  case False
  have n: "mn \<noteq> NaN" "w \<noteq> NaN" "mx \<noteq> NaN"
    using assms(2,3) by (auto dest: num_le_not_NaN)
  have "normalized rnd w mn mx = NaN \<or> normalized rnd w mn mx = Fin 0"
  proof (cases mn)
    case NInf
    then show ?thesis using n assms(3)
      by (cases w; cases mx) (simp_all add: normalized_def divisor_def falsy_def)
  next
    case (Fin a)
    show ?thesis
    proof (cases w)
      case w: (Fin b)
      with Fin False n have mx: "mx = PInf" using assms(3) by (cases mx) simp_all
      from rd_nonneg [OF assms(1), of "b - a"] assms(2) Fin w
      have "jsSub rnd (Fin b) (Fin a) = PInf \<or> (\<exists>x. jsSub rnd (Fin b) (Fin a) = Fin x)" by auto
      then show ?thesis
        by (auto simp: normalized_def divisor_def falsy_def Fin w mx)
    next
      case PInf
      with assms(3) n have mx: "mx = PInf" by (cases mx) simp_all
      show ?thesis by (simp add: normalized_def divisor_def falsy_def Fin PInf mx)
    qed (use n assms(2) Fin in simp_all)
  next
    case PInf
    with assms(2) n have w: "w = PInf" by (cases w) simp_all
    show ?thesis by (simp add: normalized_def PInf w)
  qed (use n in simp_all)
  then show ?thesis by auto
qed

subsection \<open>The channels\<close>

lemma channels_of_unit:
  assumes "roundingOK rnd" "normalized rnd w mn mx = Fin t" "0 \<le> t" "t \<le> 1"
  obtains r b where "red rnd w mn mx = Fin (of_int r)" "blue rnd w mn mx = Fin (of_int b)"
    "0 \<le> r" "r \<le> 255" "0 \<le> b" "b \<le> 255"
proof -
  have "0 \<le> 255 * t" "255 * t \<le> 255" using assms(3,4) by auto
  from rd_byte [OF assms(1) this]
  have r: "red rnd w mn mx = Fin (of_int \<lfloor>rnd (255 * t)\<rfloor>)"
    "0 \<le> \<lfloor>rnd (255 * t)\<rfloor>" "\<lfloor>rnd (255 * t)\<rfloor> \<le> 255"
    by (simp_all add: red_def assms(2) floor_le_iff)
  have "0 \<le> 1 - t" "1 - t \<le> 1" using assms(3,4) by auto
  from rd_unit [OF assms(1) this]
  have u: "rd rnd (1 - t) = Fin (rnd (1 - t))" "0 \<le> rnd (1 - t)" "rnd (1 - t) \<le> 1" by auto
  then have "0 \<le> 255 * rnd (1 - t)" "255 * rnd (1 - t) \<le> 255" by auto
  from rd_byte [OF assms(1) this]
  have b: "blue rnd w mn mx = Fin (of_int \<lfloor>rnd (255 * rnd (1 - t))\<rfloor>)"
    "0 \<le> \<lfloor>rnd (255 * rnd (1 - t))\<rfloor>" "\<lfloor>rnd (255 * rnd (1 - t))\<rfloor> \<le> 255"
    by (simp_all add: blue_def assms(2) u(1) floor_le_iff)
  from r(1) b(1) r(2,3) b(2,3) show ?thesis by (rule that)
qed

lemma channels_of_NaN:
  assumes "normalized rnd w mn mx = NaN"
  shows "red rnd w mn mx = NaN" "blue rnd w mn mx = NaN"
  using assms by (simp_all add: red_def blue_def)

lemma push_and_small:
  fixes r b :: int
  assumes "0 \<le> b" "b < 2 ^ n"
  shows "push_bit n r AND b = 0"
proof -
  have "b = take_bit n b" using assms by (simp add: take_bit_int_eq_self)
  moreover have "push_bit n r AND take_bit n b = 0"
    by (rule bit_eqI) (auto simp: bit_simps)
  ultimately show ?thesis by simp
qed

lemma ToInt32_int: "0 \<le> r \<Longrightarrow> ToInt32 (Fin (of_int r)) = word_of_int r"
  by simp

lemma packRGB_bytes:
  assumes "0 \<le> r" "r \<le> 255" "0 \<le> b" "b \<le> 255"
  shows "packRGB (Fin (of_int r)) (Fin 0) (Fin (of_int b)) = r * 65536 + b"
proof -
  have d: "push_bit 16 r AND b = 0"
    using assms by (intro push_and_small) auto
  have "push_bit 16 r OR b = push_bit 16 r + b"
    using disjunctive_add_eq_or [OF d] by simp
  then have e: "push_bit 16 r OR b = r * 65536 + b"
    by (simp add: push_bit_eq_mult)
  have "packRGB (Fin (of_int r)) (Fin 0) (Fin (of_int b)) =
      sint (word_of_int (push_bit 16 r OR b) :: 32 word)"
    unfolding packRGB_def ToInt32_int [OF assms(1)] ToInt32_int [OF assms(3)]
    by (simp add: push_bit_of_int word_wi_log_defs del: of_int_push_bit)
  also have "\<dots> = signed_take_bit 31 (r * 65536 + b)"
    unfolding e by (simp only: sint_sbintrunc') simp
  also have "\<dots> = r * 65536 + b"
    using assms by (intro signed_take_bit_int_eq_self) auto
  finally show ?thesis .
qed

lemma packRGB_NaN: "packRGB NaN (Fin 0) NaN = 0"
  by (simp add: packRGB_def)

lemma bytes_of_colour:
  assumes "0 \<le> r" "r \<le> 255" "0 \<le> b" "b \<le> 255"
  shows "redByte (r * 65536 + b) = r \<and> greenByte (r * 65536 + b) = 0 \<and> blueByte (r * 65536 + b) = b"
proof -
  have e: "r * 65536 + b = b + (r * 256) * 256" by simp
  have "(r * 65536 + b) div 65536 = r" using assms by simp
  moreover have "(b + (r * 256) * 256) div 256 = r * 256 + b div 256"
    by (rule div_mult_self1) simp
  then have "(r * 65536 + b) div 256 = r * 256" using assms by (simp only: e)
  moreover have "(b + (r * 256) * 256) mod 256 = b mod 256" by (rule mod_mult_self1)
  then have "(r * 65536 + b) mod 256 = b" using assms by (simp only: e) simp
  ultimately show ?thesis using assms by (simp add: redByte_def greenByte_def blueByte_def)
qed

text \<open>
  The colour of a weight between the bounds is black, when the normalised weight is NaN, or
  it is made of a red and a blue byte.
\<close>

lemma colour_shape:
  assumes "roundingOK rnd" "num_le mn w" "num_le w mx"
  shows "getColorForWeight rnd w mn mx = 0
       \<or> (\<exists>r b. 0 \<le> r \<and> r \<le> 255 \<and> 0 \<le> b \<and> b \<le> 255
            \<and> getColorForWeight rnd w mn mx = r * 65536 + b)"
proof -
  from normalized_range [OF assms]
  consider "normalized rnd w mn mx = NaN"
    | t where "normalized rnd w mn mx = Fin t" "0 \<le> t" "t \<le> 1"
    by blast
  then show ?thesis
  proof cases
    case 1
    then show ?thesis
      by (simp add: getColorForWeight_def green_def channels_of_NaN packRGB_NaN)
  next
    case 2
    from channels_of_unit [OF assms(1) 2]
    obtain r b where c: "red rnd w mn mx = Fin (of_int r)" "blue rnd w mn mx = Fin (of_int b)"
      "0 \<le> r" "r \<le> 255" "0 \<le> b" "b \<le> 255"
      by blast
    then have "getColorForWeight rnd w mn mx = r * 65536 + b"
      by (simp add: getColorForWeight_def green_def packRGB_bytes)
    with c show ?thesis by blast
  qed
qed

lemma colour_not_yellow:
  assumes "roundingOK rnd" "num_le mn w" "num_le w mx"
  shows "getColorForWeight rnd w mn mx \<noteq> 16776960"
proof
  assume y: "getColorForWeight rnd w mn mx = 16776960"
  from colour_shape [OF assms] y
  obtain r b :: int where c: "0 \<le> r" "r \<le> 255" "0 \<le> b" "b \<le> 255" "r * 65536 + b = 16776960"
    by auto
  from bytes_of_colour [OF c(1-4)] have "greenByte (r * 65536 + b) = 0" by simp
  then show False unfolding c(5) by (simp add: greenByte_def)
qed

subsection \<open>Growing weights\<close>

lemma Math_floor_mono: "num_le a b \<Longrightarrow> num_le (Math_floor a) (Math_floor b)"
  by (cases a; cases b) (simp_all add: floor_mono)

lemma jsSub_mono_left:
  assumes "roundingOK rnd" "num_le a b"
  shows "num_le (jsSub rnd a (Fin y)) (jsSub rnd b (Fin y))"
  using assms by (cases a; cases b) (simp_all add: rd_mono)

lemma jsSub_anti_right:
  assumes "roundingOK rnd" "num_le a b"
  shows "num_le (jsSub rnd (Fin x) b) (jsSub rnd (Fin x) a)"
  using assms by (cases a; cases b) (simp_all add: rd_mono)

lemma jsDiv_mono:
  assumes "roundingOK rnd" "num_le a b" "0 < y"
  shows "num_le (jsDiv rnd a (Fin y)) (jsDiv rnd b (Fin y))"
  using assms by (cases a; cases b) (simp_all add: rd_mono divide_right_mono inf_of_def)

lemma jsMul_mono:
  assumes "roundingOK rnd" "num_le a b" "0 < x"
  shows "num_le (jsMul rnd (Fin x) a) (jsMul rnd (Fin x) b)"
  using assms by (cases a; cases b) (simp_all add: rd_mono mult_left_mono inf_of_def)

lemma normalized_mono:
  assumes "roundingOK rnd" "mn \<le> mx" "jsSub rnd (Fin mx) (Fin mn) \<noteq> PInf" "num_le w1 w2"
  shows "num_le (normalized rnd w1 (Fin mn) (Fin mx)) (normalized rnd w2 (Fin mn) (Fin mx))"
proof -
  from divisor_fin [OF assms(1-3)]
  obtain y where y: "divisor rnd (Fin mn) (Fin mx) = Fin y" "0 < y" by blast
  show ?thesis
    unfolding normalized_def y(1)
    by (intro jsDiv_mono jsSub_mono_left assms y)
qed

lemma red_mono:
  assumes "roundingOK rnd" "mn \<le> mx" "jsSub rnd (Fin mx) (Fin mn) \<noteq> PInf" "num_le w1 w2"
  shows "num_le (red rnd w1 (Fin mn) (Fin mx)) (red rnd w2 (Fin mn) (Fin mx))"
  unfolding red_def
  by (intro Math_floor_mono jsMul_mono normalized_mono assms) simp

lemma blue_mono:
  assumes "roundingOK rnd" "mn \<le> mx" "jsSub rnd (Fin mx) (Fin mn) \<noteq> PInf" "num_le w1 w2"
  shows "num_le (blue rnd w2 (Fin mn) (Fin mx)) (blue rnd w1 (Fin mn) (Fin mx))"
  unfolding blue_def
  by (intro Math_floor_mono jsMul_mono jsSub_anti_right normalized_mono assms) simp

subsection \<open>Single precision\<close>

lemma binadeFrom_eq:
  assumes "e0 \<le> e" "e \<le> e0 + int n" "e0 < e \<Longrightarrow> 2 powi e \<le> a" "a < 2 powi (e + 1) \<or> e = e0 + int n"
  shows "binadeFrom n e0 a = e"
  using assms
proof (induction n arbitrary: e0)
  case 0
  then show ?case by simp
next
  case (Suc n)
  show ?case
  proof (cases "e0 = e")
    case True
    with Suc.prems(4) have "a < 2 powi (e0 + 1)" by auto
    with True show ?thesis by simp
  next
    case False
    with Suc.prems(1) have l: "e0 < e" by simp
    have "(2::real) powi (e0 + 1) \<le> 2 powi e"
      using l by (intro power_int_increasing) simp_all
    also have "\<dots> \<le> a" using Suc.prems(3) l by simp
    finally have g: "2 powi (e0 + 1) \<le> a" .
    have "binadeFrom n (e0 + 1) a = e"
      using l Suc.prems by (intro Suc.IH) auto
    with g show ?thesis by simp
  qed
qed

lemma fround_Fin:
  assumes "- 126 \<le> e" "e \<le> 127" "- 126 < e \<Longrightarrow> 2 powi e \<le> \<bar>x\<bar>"
    and "\<bar>x\<bar> < 2 powi (e + 1) \<or> e = 127"
  shows "fround (Fin x) =
     (let u = 2 powi (e - 23); y = of_int (rne (x / u)) * u
      in if 2 powi 128 \<le> y then PInf else if y \<le> - (2 powi 128) then NInf else Fin y)"
proof -
  have "binadeFrom 253 (- 126) \<bar>x\<bar> = e"
    using assms by (intro binadeFrom_eq) auto
  then show ?thesis by (simp add: fround_def)
qed

lemma fround_other [simp]: "fround NaN = NaN" "fround PInf = PInf" "fround NInf = NInf"
  by (simp_all add: fround_def)

lemma fround_0 [simp]: "fround (Fin 0) = Fin 0"
  by (subst fround_Fin [where e = "- 126"]) (simp_all add: rne_def Let_def power_int_minus)

lemma fround_2 [simp]: "fround (Fin 2) = Fin 2"
  by (subst fround_Fin [where e = 1]) (simp_all add: rne_def Let_def power_int_minus)

lemma fround_3 [simp]: "fround (Fin 3) = Fin 3"
  by (subst fround_Fin [where e = 1]) (simp_all add: rne_def Let_def power_int_minus)

lemma fround_33554433: "fround (Fin 33554433) = Fin 33554432"
  by (subst fround_Fin [where e = 25]) (simp_all add: rne_def Let_def power_int_minus)

lemma fround_33554434: "fround (Fin 33554434) = Fin 33554432"
  by (subst fround_Fin [where e = 25]) (simp_all add: rne_def Let_def power_int_minus)

lemma fround_33554435: "fround (Fin 33554435) = Fin 33554436"
  by (subst fround_Fin [where e = 25]) (simp_all add: rne_def Let_def power_int_minus)

subsection \<open>The example weights\<close>

lemmas number_run = rd_small quarters_def exact_def jsMin_def jsMax_def Math_min_def Math_max_def
  falsy_def inf_of_def

lemmas link_run = jsonLink_def linkWeight_def orOne_def nullish_def

lemma example_min_max:
  "Math_min (map linkWeight exampleLinks) = Fin 1 \<and> Math_max (map linkWeight exampleLinks) = Fin 5"
  by (simp add: exampleLinks_def link_run number_run)

lemma equal_min_max:
  "Math_min (map linkWeight equalLinks) = Fin 2 \<and> Math_max (map linkWeight equalLinks) = Fin 2"
  by (simp add: equalLinks_def link_run number_run)

lemma huge_min_max:
  "Math_min (map linkWeight hugeLinks) = Fin (- (2 ^ 1023))
   \<and> Math_max (map linkWeight hugeLinks) = Fin (2 ^ 1023)"
  by (simp add: hugeLinks_def link_run jsMin_def jsMax_def Math_min_def Math_max_def falsy_def)

lemma infinite_min_max:
  "Math_min (map linkWeight infiniteLinks) = PInf \<and> Math_max (map linkWeight infiniteLinks) = PInf"
  by (simp add: infiniteLinks_def link_run number_run)

lemma huge_range: "jsSub exact (Fin (2 ^ 1023)) (Fin (- (2 ^ 1023))) = PInf"
  by (simp add: rd_exact_overflow)

lemma huge_colours:
  "getColorForWeight exact (Fin (- (2 ^ 1023))) (Fin (- (2 ^ 1023))) (Fin (2 ^ 1023)) = 255"
  "getColorForWeight exact (Fin (2 ^ 1023)) (Fin (- (2 ^ 1023))) (Fin (2 ^ 1023)) = 0"
proof -
  have d: "divisor exact (Fin (- (2 ^ 1023))) (Fin (2 ^ 1023)) = PInf"
    unfolding divisor_def huge_range by (simp add: falsy_def)
  have z: "rd exact 0 = Fin 0" "rd exact 1 = Fin 1" "rd exact 255 = Fin 255"
    by (simp_all add: rd_small exact_def)
  have t0: "normalized exact (Fin (- (2 ^ 1023))) (Fin (- (2 ^ 1023))) (Fin (2 ^ 1023)) = Fin 0"
    unfolding normalized_def d by (simp add: z)
  have t1: "normalized exact (Fin (2 ^ 1023)) (Fin (- (2 ^ 1023))) (Fin (2 ^ 1023)) = NaN"
    unfolding normalized_def d huge_range by simp
  have r0: "red exact (Fin (- (2 ^ 1023))) (Fin (- (2 ^ 1023))) (Fin (2 ^ 1023)) = Fin 0"
    unfolding red_def t0 by (simp add: z)
  have b0: "blue exact (Fin (- (2 ^ 1023))) (Fin (- (2 ^ 1023))) (Fin (2 ^ 1023)) = Fin 255"
    unfolding blue_def t0 by (simp add: z)
  show "getColorForWeight exact (Fin (- (2 ^ 1023))) (Fin (- (2 ^ 1023))) (Fin (2 ^ 1023)) = 255"
    unfolding getColorForWeight_def Let_def r0 b0 green_def
    using packRGB_bytes [of 0 255] by simp
  show "getColorForWeight exact (Fin (2 ^ 1023)) (Fin (- (2 ^ 1023))) (Fin (2 ^ 1023)) = 0"
    unfolding getColorForWeight_def Let_def channels_of_NaN [OF t1] green_def by (rule packRGB_NaN)
qed

lemma min_le_max:
  assumes "Math_min (map linkWeight ls) = Fin mn" "Math_max (map linkWeight ls) = Fin mx"
  shows "mn \<le> mx"
proof -
  from assms(1) have "ls \<noteq> []" by auto
  then obtain l where "l \<in> set ls" by (cases ls) auto
  from weight_between [OF this] have "num_le (Fin mn) (Fin mx)"
    unfolding assms by (rule num_le_trans)
  then show ?thesis by simp
qed

subsection \<open>Monotone and bounded\<close>

text \<open>
  C1, as the code has it. In a snapshot whose link weights have a finite minimum \<open>mn\<close> and a
  finite maximum \<open>mx\<close> that differ, and whose range \<open>mx - mn\<close> does not overflow, the red
  channel \<open>r\<close> of \<open>getColorForWeight\<close> does not decrease and the blue channel \<open>b\<close> does not
  increase when the weight grows; for a weight between \<open>mn\<close> and \<open>mx\<close> both channels are
  integers between 0 and 255, green is 0, and the three bytes of the colour returned are
  these channels. This holds for every rounding that is monotone and exact on 0, 1/2, 1 and
  255, exact arithmetic included.
\<close>

theorem getColorForWeight_monotone_bounded:
  assumes "roundingOK rnd"
    and "Math_min (map linkWeight ls) = Fin mn"
    and "Math_max (map linkWeight ls) = Fin mx"
    and "mn \<noteq> mx"
    and "jsSub rnd (Fin mx) (Fin mn) \<noteq> PInf"
    and "num_le w1 w2"
    and "mn \<le> w" and "w \<le> mx"
  shows "num_le (red rnd w1 (Fin mn) (Fin mx)) (red rnd w2 (Fin mn) (Fin mx))
       \<and> num_le (blue rnd w2 (Fin mn) (Fin mx)) (blue rnd w1 (Fin mn) (Fin mx))
       \<and> (\<exists>r b. red rnd (Fin w) (Fin mn) (Fin mx) = Fin (of_int r)
            \<and> blue rnd (Fin w) (Fin mn) (Fin mx) = Fin (of_int b)
            \<and> 0 \<le> r \<and> r \<le> 255 \<and> 0 \<le> b \<and> b \<le> 255
            \<and> redByte (getColorForWeight rnd (Fin w) (Fin mn) (Fin mx)) = r
            \<and> greenByte (getColorForWeight rnd (Fin w) (Fin mn) (Fin mx)) = 0
            \<and> blueByte (getColorForWeight rnd (Fin w) (Fin mn) (Fin mx)) = b)
       \<and> green = Fin 0"
proof -
  have le: "mn \<le> mx" using assms(2,3) by (rule min_le_max)
  have m: "num_le (red rnd w1 (Fin mn) (Fin mx)) (red rnd w2 (Fin mn) (Fin mx))"
    "num_le (blue rnd w2 (Fin mn) (Fin mx)) (blue rnd w1 (Fin mn) (Fin mx))"
    using assms(1) le assms(5,6) by (rule red_mono, rule blue_mono)
  from normalized_fin [OF assms(1,7,8,5)]
  obtain t where t: "normalized rnd (Fin w) (Fin mn) (Fin mx) = Fin t" "0 \<le> t" "t \<le> 1"
    by blast
  from channels_of_unit [OF assms(1) t]
  obtain r b where c: "red rnd (Fin w) (Fin mn) (Fin mx) = Fin (of_int r)"
    "blue rnd (Fin w) (Fin mn) (Fin mx) = Fin (of_int b)"
    "0 \<le> r" "r \<le> 255" "0 \<le> b" "b \<le> 255"
    by blast
  have g: "getColorForWeight rnd (Fin w) (Fin mn) (Fin mx) = r * 65536 + b"
    using c by (simp add: getColorForWeight_def green_def packRGB_bytes)
  from bytes_of_colour [OF c(3-6)] c m show ?thesis
    unfolding g by (auto simp: green_def)
qed

theorem getColorForWeight_monotone_bounded_witness:
  "roundingOK quarters
   \<and> Math_min (map linkWeight exampleLinks) = Fin 1
   \<and> Math_max (map linkWeight exampleLinks) = Fin 5
   \<and> (1::real) \<noteq> 5
   \<and> jsSub quarters (Fin 5) (Fin 1) = Fin 4
   \<and> num_le (Fin 2) (Fin 3) \<and> (1::real) \<le> 3 \<and> (3::real) \<le> 5
   \<and> num_le (red quarters (Fin 2) (Fin 1) (Fin 5)) (red quarters (Fin 3) (Fin 1) (Fin 5))
   \<and> num_le (blue quarters (Fin 3) (Fin 1) (Fin 5)) (blue quarters (Fin 2) (Fin 1) (Fin 5))
   \<and> red quarters (Fin 3) (Fin 1) (Fin 5) = Fin 127
   \<and> blue quarters (Fin 3) (Fin 1) (Fin 5) = Fin 127
   \<and> getColorForWeight quarters (Fin 3) (Fin 1) (Fin 5) = 8323199
   \<and> redByte 8323199 = 127 \<and> greenByte 8323199 = 0 \<and> blueByte 8323199 = 127"
proof -
  have h1: "Math_min (map linkWeight exampleLinks) = Fin 1"
    and h2: "Math_max (map linkWeight exampleLinks) = Fin 5"
    using example_min_max by auto
  have h3: "(1::real) \<noteq> 5" and h5: "num_le (Fin 2) (Fin 3)" and h6: "(1::real) \<le> 3"
    and h7: "(3::real) \<le> 5"
    by auto
  have s: "jsSub quarters (Fin 5) (Fin 1) = Fin 4" by (simp add: number_run)
  then have h4: "jsSub quarters (Fin 5) (Fin 1) \<noteq> PInf" by simp
  have r: "red quarters (Fin 3) (Fin 1) (Fin 5) = Fin 127"
    and b: "blue quarters (Fin 3) (Fin 1) (Fin 5) = Fin 127"
    by (simp_all add: red_def blue_def normalized_def divisor_def number_run)
  have c: "getColorForWeight quarters (Fin 3) (Fin 1) (Fin 5) = 8323199"
    unfolding getColorForWeight_def Let_def green_def r b
    using packRGB_bytes [of 127 127] by simp
  have y: "redByte 8323199 = 127 \<and> greenByte 8323199 = 0 \<and> blueByte 8323199 = 127"
    by (simp add: redByte_def greenByte_def blueByte_def)
  from getColorForWeight_monotone_bounded [OF roundingOK_quarters h1 h2 h3 h4 h5 h6 h7]
  have m: "num_le (red quarters (Fin 2) (Fin 1) (Fin 5)) (red quarters (Fin 3) (Fin 1) (Fin 5))
      \<and> num_le (blue quarters (Fin 3) (Fin 1) (Fin 5)) (blue quarters (Fin 2) (Fin 1) (Fin 5))"
    by blast
  from m roundingOK_quarters h1 h2 s h5 r b c y show ?thesis by simp
qed

text \<open>
  C1 as stated fails. The two weights \<open>-2^1023\<close> and \<open>2^1023\<close> are finite and differ, and
  their difference overflows to \<open>Infinity\<close>: for the greater weight \<open>t\<close> is
  \<open>Infinity / Infinity\<close>, the channels \<open>r\<close> and \<open>b\<close> are NaN, which is not a number from 0 to
  255 and is not above the red channel 0 of the smaller weight, and the colour is 0.
\<close>

theorem getColorForWeight_overflow_counterexample:
  "Math_min (map linkWeight hugeLinks) = Fin (- (2 ^ 1023))
   \<and> Math_max (map linkWeight hugeLinks) = Fin (2 ^ 1023)
   \<and> (- (2 ^ 1023) :: real) \<noteq> 2 ^ 1023
   \<and> red exact (Fin (- (2 ^ 1023))) (Fin (- (2 ^ 1023))) (Fin (2 ^ 1023)) = Fin 0
   \<and> red exact (Fin (2 ^ 1023)) (Fin (- (2 ^ 1023))) (Fin (2 ^ 1023)) = NaN
   \<and> blue exact (Fin (2 ^ 1023)) (Fin (- (2 ^ 1023))) (Fin (2 ^ 1023)) = NaN
   \<and> \<not> num_le (red exact (Fin (- (2 ^ 1023))) (Fin (- (2 ^ 1023))) (Fin (2 ^ 1023)))
          (red exact (Fin (2 ^ 1023)) (Fin (- (2 ^ 1023))) (Fin (2 ^ 1023)))
   \<and> \<not> num_le (Fin 0) (red exact (Fin (2 ^ 1023)) (Fin (- (2 ^ 1023))) (Fin (2 ^ 1023)))
   \<and> getColorForWeight exact (Fin (2 ^ 1023)) (Fin (- (2 ^ 1023))) (Fin (2 ^ 1023)) = 0"
proof -
  have d: "divisor exact (Fin (- (2 ^ 1023))) (Fin (2 ^ 1023)) = PInf"
    unfolding divisor_def huge_range by (simp add: falsy_def)
  have z: "rd exact 0 = Fin 0" by (simp add: number_run)
  have t0: "normalized exact (Fin (- (2 ^ 1023))) (Fin (- (2 ^ 1023))) (Fin (2 ^ 1023)) = Fin 0"
    unfolding normalized_def d by (simp add: z)
  have t1: "normalized exact (Fin (2 ^ 1023)) (Fin (- (2 ^ 1023))) (Fin (2 ^ 1023)) = NaN"
    unfolding normalized_def d huge_range by simp
  have r0: "red exact (Fin (- (2 ^ 1023))) (Fin (- (2 ^ 1023))) (Fin (2 ^ 1023)) = Fin 0"
    unfolding red_def t0 by (simp add: z)
  have r1: "red exact (Fin (2 ^ 1023)) (Fin (- (2 ^ 1023))) (Fin (2 ^ 1023)) = NaN"
    and b1: "blue exact (Fin (2 ^ 1023)) (Fin (- (2 ^ 1023))) (Fin (2 ^ 1023)) = NaN"
    using t1 by (rule channels_of_NaN)+
  have c: "getColorForWeight exact (Fin (2 ^ 1023)) (Fin (- (2 ^ 1023))) (Fin (2 ^ 1023)) = 0"
    unfolding getColorForWeight_def Let_def r1 b1 green_def by (rule packRGB_NaN)
  have n: "(- (2 ^ 1023) :: real) \<noteq> 2 ^ 1023" by simp
  from huge_min_max n r0 r1 b1 c show ?thesis by simp
qed

subsection \<open>All weights equal\<close>

text \<open>
  C2, as the code has it. In a snapshot whose link weights are all one finite number (the
  minimum is the maximum), \<open>getColorForWeight\<close> returns for every link the low-weight
  colour, red 0 and blue 255 (\<open>0x0000FF\<close>); the divisor of the normalisation is then 1, and
  whatever the bounds are it is never 0 and never NaN.
\<close>

theorem getColorForWeight_equal_weights:
  assumes "roundingOK rnd"
    and "Math_min (map linkWeight ls) = Fin m"
    and "Math_max (map linkWeight ls) = Fin m"
    and "l \<in> set ls"
  shows "linkWeight l = Fin m
       \<and> red rnd (linkWeight l) (Fin m) (Fin m) = Fin 0
       \<and> blue rnd (linkWeight l) (Fin m) (Fin m) = Fin 255
       \<and> getColorForWeight rnd (linkWeight l) (Fin m) (Fin m) = 255
       \<and> divisor rnd (Fin m) (Fin m) = Fin 1
       \<and> \<not> falsy (divisor rnd mn mx)"
proof -
  from weight_between [OF assms(4)] have w: "linkWeight l = Fin m"
    unfolding assms(2,3) by (rule num_le_antisym [rotated])
  have z: "rnd 0 = 0" and o: "rnd 1 = 1" and f: "rnd 255 = 255"
    using assms(1) by (simp_all add: roundingOK_def)
  have rz: "rd rnd 0 = Fin 0" "rd rnd 1 = Fin 1" "rd rnd 255 = Fin 255"
    by (simp_all add: rd_small z o f)
  have d: "divisor rnd (Fin m) (Fin m) = Fin 1" by (simp add: divisor_def rz falsy_def)
  have t: "normalized rnd (Fin m) (Fin m) (Fin m) = Fin 0" by (simp add: normalized_def d rz)
  have r: "red rnd (Fin m) (Fin m) (Fin m) = Fin 0" by (simp add: red_def t rz)
  have b: "blue rnd (Fin m) (Fin m) (Fin m) = Fin 255" by (simp add: blue_def t rz)
  have "getColorForWeight rnd (Fin m) (Fin m) (Fin m) = 0 * 65536 + 255"
    unfolding getColorForWeight_def Let_def green_def r b
    using packRGB_bytes [of 0 255] by simp
  with w d r b show ?thesis by (simp add: divisor_not_falsy)
qed

theorem getColorForWeight_equal_weights_witness:
  "roundingOK quarters
   \<and> Math_min (map linkWeight equalLinks) = Fin 2
   \<and> Math_max (map linkWeight equalLinks) = Fin 2
   \<and> jsonLink ''b'' ''c'' None (Some (Fin 2)) \<in> set equalLinks
   \<and> linkWeight (jsonLink ''b'' ''c'' None (Some (Fin 2))) = Fin 2
   \<and> red quarters (Fin 2) (Fin 2) (Fin 2) = Fin 0
   \<and> blue quarters (Fin 2) (Fin 2) (Fin 2) = Fin 255
   \<and> getColorForWeight quarters (Fin 2) (Fin 2) (Fin 2) = 255
   \<and> divisor quarters (Fin 2) (Fin 2) = Fin 1
   \<and> divisor quarters (Fin 1) (Fin 5) = Fin 4"
proof -
  have h1: "Math_min (map linkWeight equalLinks) = Fin 2"
    and h2: "Math_max (map linkWeight equalLinks) = Fin 2"
    using equal_min_max by auto
  have h3: "jsonLink ''b'' ''c'' None (Some (Fin 2)) \<in> set equalLinks"
    by (simp add: equalLinks_def)
  have v: "divisor quarters (Fin 1) (Fin 5) = Fin 4" by (simp add: divisor_def number_run)
  have w: "linkWeight (jsonLink ''b'' ''c'' None (Some (Fin 2))) = Fin 2"
    by (simp add: link_run falsy_def)
  from getColorForWeight_equal_weights [OF roundingOK_quarters h1 h2 h3, of "Fin 1" "Fin 5"]
  show ?thesis using roundingOK_quarters h1 h2 h3 v by (simp add: w)
qed

text \<open>
  C2 as stated fails. The three weights are \<open>Infinity\<close>: \<open>max - min\<close> is NaN and the divisor
  is 1, \<open>t\<close> is \<open>(Infinity - Infinity) / 1\<close>, which is NaN, and every link gets the colour 0,
  which is black and not the low-weight colour.
\<close>

theorem getColorForWeight_infinite_counterexample:
  "Math_min (map linkWeight infiniteLinks) = PInf
   \<and> Math_max (map linkWeight infiniteLinks) = PInf
   \<and> list_all (\<lambda>l. linkWeight l = PInf) infiniteLinks
   \<and> divisor exact PInf PInf = Fin 1
   \<and> red exact PInf PInf PInf = NaN
   \<and> blue exact PInf PInf PInf = NaN
   \<and> getColorForWeight exact PInf PInf PInf = 0
   \<and> getColorForWeight exact PInf PInf PInf \<noteq> 255"
proof -
  have w: "list_all (\<lambda>l. linkWeight l = PInf) infiniteLinks"
    by (simp add: infiniteLinks_def link_run falsy_def)
  have d: "divisor exact PInf PInf = Fin 1" by (simp add: divisor_def falsy_def)
  have t: "normalized exact PInf PInf PInf = NaN" by (simp add: normalized_def)
  note c = channels_of_NaN [OF t]
  have g: "getColorForWeight exact PInf PInf PInf = 0"
    unfolding getColorForWeight_def Let_def c green_def by (rule packRGB_NaN)
  from infinite_min_max w d c g show ?thesis by simp
qed


section \<open>The program computes what the descriptions say\<close>

lemma initNodes_eq:
  "initNodes f rnd rand k ns s =
     (placeNodes rnd rand k (nextMesh s) ns,
      s\<lparr>meshes := addMeshes f (nextMesh s) ns (meshes s),
        nextMesh := nextMesh s + length ns,
        children := children s @ map MeshChild [nextMesh s..<nextMesh s + length ns]\<rparr>)"
proof (induction ns arbitrary: k s)
  case Nil
  show ?case by simp
next
  case (Cons n ns)
  have u: "[nextMesh s..<Suc (nextMesh s + length ns)] = nextMesh s # [Suc (nextMesh s)..<Suc (nextMesh s + length ns)]"
    by (subst upt_rec) simp
  show ?case
    by (simp add: Cons.IH Let_def u del: upt_Suc)
qed

lemma addMeshes_apply:
  "addMeshes f m ns M r =
     (if m \<le> r \<and> r < m + length ns then textMesh f (node_id (ns ! (r - m))) else M r)"
proof (induction ns arbitrary: m M)
  case Nil
  show ?case by auto
next
  case (Cons n ns)
  have IH: "addMeshes f (Suc m) ns (M(m := textMesh f (node_id n))) r =
     (if Suc m \<le> r \<and> r < Suc m + length ns then textMesh f (node_id (ns ! (r - Suc m)))
      else (M(m := textMesh f (node_id n))) r)"
    by (rule Cons.IH)
  show ?case
    by (simp add: IH)
qed

lemma length_placeNodes: "length (placeNodes rnd rand k m ns) = length ns"
  by (induction ns arbitrary: k m) auto

lemma mesh_placeNodes: "map mesh (placeNodes rnd rand k m ns) = map Some [m..<m + length ns]"
proof (induction ns arbitrary: k m)
  case Nil
  show ?case by simp
next
  case (Cons n ns)
  have u: "[m..<Suc (m + length ns)] = m # [Suc m..<Suc (m + length ns)]"
    by (subst upt_rec) simp
  show ?case by (simp add: Cons.IH u del: upt_Suc)
qed

lemma id_placeNodes: "map node_id (placeNodes rnd rand k m ns) = map node_id ns"
  by (induction ns arbitrary: k m) auto

lemma nth_placeNodes:
  "i < length ns \<Longrightarrow> mesh (placeNodes rnd rand k m ns ! i) = Some (m + i)
     \<and> node_id (placeNodes rnd rand k m ns ! i) = node_id (ns ! i)"
proof (induction ns arbitrary: k m i)
  case Nil
  then show ?case by simp
next
  case (Cons n ns)
  then show ?case by (cases i) auto
qed

lemma findNode_Some: "findNode ns x = Some i \<Longrightarrow> i < length ns \<and> node_id (ns ! i) = x"
proof (induction ns arbitrary: i)
  case Nil
  then show ?case by simp
next
  case (Cons n ns)
  then show ?case by (auto split: if_splits)
qed

lemma findNode_None: "findNode ns x = None \<longleftrightarrow> x \<notin> node_id ` set ns"
  by (induction ns) auto

lemma findNode_placeNodes: "findNode (placeNodes rnd rand k m ns) x = findNode ns x"
  by (induction ns arbitrary: k m) auto

lemma meshesBound_Cons:
  "meshesBound ns (l # ls) \<longleftrightarrow>
     (\<forall>i j. sourceObj l = Some i \<longrightarrow> targetObj l = Some j \<longrightarrow>
        (\<exists>mi mj. nodeMesh ns i = Some mi \<and> nodeMesh ns j = Some mj)) \<and> meshesBound ns ls"
  by (auto simp: meshesBound_def)

lemma pushLink_fields [simp]:
  "loadedFont (pushLink m r s) = loadedFont s"
  "simulation (pushLink m r s) = simulation s"
  "currentGraph (pushLink m r s) = currentGraph s"
  "children (pushLink m r s) = children s"
  "nextMesh (pushLink m r s) = nextMesh s"
  "lines (pushLink m r s) = lines s"
  "nextLine (pushLink m r s) = nextLine s"
  "highlightedNode (pushLink m r s) = highlightedNode s"
  "tooltip (pushLink m r s) = tooltip s"
  "console (pushLink m r s) = console s"
  by (simp_all add: pushLink_def)

lemma pushLink_mesh [simp]:
  "position (meshes (pushLink m r s) m') = position (meshes s m')"
  "mesh_color (meshes (pushLink m r s) m') = mesh_color (meshes s m')"
  "label (meshes (pushLink m r s) m') = label (meshes s m')"
  "label_font (meshes (pushLink m r s) m') = label_font (meshes s m')"
  "ud_id (meshes (pushLink m r s) m') = ud_id (meshes s m')"
  "ud_links (meshes (pushLink m r s) m') = ud_links (meshes s m') @ (if m' = m then [r] else [])"
  by (simp_all add: pushLink_def)

lemma newLine_fields [simp]:
  "loadedFont (newLine rnd mn mx l i j mi mj s) = loadedFont s"
  "simulation (newLine rnd mn mx l i j mi mj s) = simulation s"
  "currentGraph (newLine rnd mn mx l i j mi mj s) = currentGraph s"
  "children (newLine rnd mn mx l i j mi mj s) = children s @ [LineChild (nextLine s)]"
  "nextMesh (newLine rnd mn mx l i j mi mj s) = nextMesh s"
  "nextLine (newLine rnd mn mx l i j mi mj s) = Suc (nextLine s)"
  "highlightedNode (newLine rnd mn mx l i j mi mj s) = highlightedNode s"
  "tooltip (newLine rnd mn mx l i j mi mj s) = tooltip s"
  "console (newLine rnd mn mx l i j mi mj s) = console s"
  by (simp_all add: newLine_def Let_def)

lemma newLine_lines [simp]:
  "lines (newLine rnd mn mx l i j mi mj s) =
     (lines s)(nextLine s := lineFor rnd mn mx l i j (position (meshes s mi)) (position (meshes s mj)))"
  by (simp add: newLine_def Let_def lineFor_def)

lemma newLine_mesh [simp]:
  "position (meshes (newLine rnd mn mx l i j mi mj s) m) = position (meshes s m)"
  "mesh_color (meshes (newLine rnd mn mx l i j mi mj s) m) = mesh_color (meshes s m)"
  "label (meshes (newLine rnd mn mx l i j mi mj s) m) = label (meshes s m)"
  "label_font (meshes (newLine rnd mn mx l i j mi mj s) m) = label_font (meshes s m)"
  "ud_id (meshes (newLine rnd mn mx l i j mi mj s) m) = ud_id (meshes s m)"
  "ud_links (meshes (newLine rnd mn mx l i j mi mj s) m) =
     ud_links (meshes s m) @ (if m = mi then [nextLine s] else []) @ (if m = mj then [nextLine s] else [])"
  by (simp_all add: newLine_def Let_def)

lemma createLines_skip:
  assumes "\<not> resolvedL l"
  shows "createLines rnd mn mx ns (l # ls) s =
     (let (e, ls1, s2) = createLines rnd mn mx ns ls s in (e, l # ls1, s2))"
  using assms by (auto simp: resolvedL_def split: option.splits)

lemma createLines_draw:
  assumes "sourceObj l = Some i" "targetObj l = Some j" "nodeMesh ns i = Some mi" "nodeMesh ns j = Some mj"
  shows "createLines rnd mn mx ns (l # ls) s =
     (let (e, ls1, s2) = createLines rnd mn mx ns ls (newLine rnd mn mx l i j mi mj s)
      in (e, l\<lparr>line := Some (nextLine s)\<rparr> # ls1, s2))"
  using assms by (simp add: Let_def)

declare createLines.simps(2) [simp del]

lemma createLines_frame:
  assumes "meshesBound ns ls" "createLines rnd mn mx ns ls s = (e, ls', s')"
  shows "e = None \<and> ls' = attachLines (nextLine s) ls
       \<and> nextLine s' = nextLine s + length (filter resolvedL ls)
       \<and> children s' = children s @ map LineChild [nextLine s..<nextLine s + length (filter resolvedL ls)]
       \<and> loadedFont s' = loadedFont s \<and> simulation s' = simulation s
       \<and> currentGraph s' = currentGraph s \<and> nextMesh s' = nextMesh s
       \<and> highlightedNode s' = highlightedNode s \<and> tooltip s' = tooltip s \<and> console s' = console s"
  using assms
proof (induction ls arbitrary: s e ls' s')
  case Nil
  then show ?case by simp
next
  case (Cons l ls)
  from Cons.prems(1) have mb: "meshesBound ns ls" by (simp add: meshesBound_Cons)
  show ?case
  proof (cases "resolvedL l")
    case False
    obtain e1 ls1 s1 where r: "createLines rnd mn mx ns ls s = (e1, ls1, s1)"
      by (cases "createLines rnd mn mx ns ls s") auto
    from Cons.prems(2) have "e = e1" "ls' = l # ls1" "s' = s1"
      by (simp_all add: createLines_skip [OF False] r)
    with Cons.IH [OF mb r] False show ?thesis by simp
  next
    case True
    then obtain i j where ij: "sourceObj l = Some i" "targetObj l = Some j"
      by (auto simp: resolvedL_def)
    with Cons.prems(1) obtain mi mj where m: "nodeMesh ns i = Some mi" "nodeMesh ns j = Some mj"
      by (auto simp: meshesBound_Cons)
    let ?s1 = "newLine rnd mn mx l i j mi mj s"
    obtain e1 ls1 s1 where r: "createLines rnd mn mx ns ls ?s1 = (e1, ls1, s1)"
      by (cases "createLines rnd mn mx ns ls ?s1") auto
    from Cons.prems(2) have "e = e1" "ls' = l\<lparr>line := Some (nextLine s)\<rparr> # ls1" "s' = s1"
      by (simp_all add: createLines_draw [OF ij m] r)
    moreover have u: "[nextLine s..<Suc (nextLine s + length (filter resolvedL ls))] =
        nextLine s # [Suc (nextLine s)..<Suc (nextLine s + length (filter resolvedL ls))]"
      by (subst upt_rec) simp
    ultimately show ?thesis using Cons.IH [OF mb r] True
      by (simp add: u del: upt_Suc)
  qed
qed

lemma createLines_cases:
  assumes "meshesBound ns (l # ls)" "createLines rnd mn mx ns (l # ls) s = (e, ls', s')"
  obtains (skip) ls1 where "\<not> resolvedL l" "createLines rnd mn mx ns ls s = (e, ls1, s')" "ls' = l # ls1"
  | (draw) i j mi mj ls1 where "sourceObj l = Some i" "targetObj l = Some j"
      "nodeMesh ns i = Some mi" "nodeMesh ns j = Some mj"
      "createLines rnd mn mx ns ls (newLine rnd mn mx l i j mi mj s) = (e, ls1, s')"
      "ls' = l\<lparr>line := Some (nextLine s)\<rparr> # ls1"
proof (cases "resolvedL l")
  case False
  obtain e1 ls1 s1 where r: "createLines rnd mn mx ns ls s = (e1, ls1, s1)"
    by (cases "createLines rnd mn mx ns ls s") auto
  from assms(2) have "e = e1" "ls' = l # ls1" "s' = s1"
    by (simp_all add: createLines_skip [OF False] r)
  with r False show ?thesis by (intro skip) auto
next
  case True
  then obtain i j where ij: "sourceObj l = Some i" "targetObj l = Some j"
    by (auto simp: resolvedL_def)
  with assms(1) obtain mi mj where m: "nodeMesh ns i = Some mi" "nodeMesh ns j = Some mj"
    by (auto simp: meshesBound_Cons)
  let ?s1 = "newLine rnd mn mx l i j mi mj s"
  obtain e1 ls1 s1 where r: "createLines rnd mn mx ns ls ?s1 = (e1, ls1, s1)"
    by (cases "createLines rnd mn mx ns ls ?s1") auto
  from assms(2) have "e = e1" "ls' = l\<lparr>line := Some (nextLine s)\<rparr> # ls1" "s' = s1"
    by (simp_all add: createLines_draw [OF ij m] r)
  with r ij m show ?thesis by (intro draw) auto
qed

lemma createLines_lines_old:
  assumes "meshesBound ns ls" "createLines rnd mn mx ns ls s = (e, ls', s')" "r < nextLine s"
  shows "lines s' r = lines s r"
  using assms
proof (induction ls arbitrary: s e ls' s')
  case Nil
  then show ?case by simp
next
  case (Cons l ls)
  from Cons.prems(1) have mb: "meshesBound ns ls" by (simp add: meshesBound_Cons)
  from Cons.prems(1,2) show ?case
  proof (cases rule: createLines_cases)
    case (skip ls1)
    from Cons.IH [OF mb skip(2) Cons.prems(3)] show ?thesis .
  next
    case (draw i j mi mj ls1)
    from Cons.prems(3) have "r < nextLine (newLine rnd mn mx l i j mi mj s)" by simp
    from Cons.IH [OF mb draw(5) this] Cons.prems(3) show ?thesis by simp
  qed
qed

lemma createLines_mesh:
  assumes "meshesBound ns ls" "createLines rnd mn mx ns ls s = (e, ls', s')"
  shows "position (meshes s' m) = position (meshes s m)
       \<and> mesh_color (meshes s' m) = mesh_color (meshes s m)
       \<and> label (meshes s' m) = label (meshes s m)
       \<and> label_font (meshes s' m) = label_font (meshes s m)
       \<and> ud_id (meshes s' m) = ud_id (meshes s m)
       \<and> ud_links (meshes s' m) = ud_links (meshes s m) @ incident ns m ls'"
  using assms
proof (induction ls arbitrary: s e ls' s')
  case Nil
  then show ?case by simp
next
  case (Cons l ls)
  from Cons.prems(1) have mb: "meshesBound ns ls" by (simp add: meshesBound_Cons)
  from Cons.prems(1,2) show ?case
  proof (cases rule: createLines_cases)
    case (skip ls1)
    from Cons.IH [OF mb skip(2)] skip(1,3) show ?thesis
      by (auto simp: resolvedL_def split: option.splits)
  next
    case (draw i j mi mj ls1)
    from Cons.IH [OF mb draw(5)] draw(1-4,6) show ?thesis
      by simp
  qed
qed

lemma createLines_lines_new:
  assumes "meshesBound ns ls" "createLines rnd mn mx ns ls s = (e, ls', s')"
    and "k < length ls" "sourceObj (ls ! k) = Some i" "targetObj (ls ! k) = Some j"
    and "nodeMesh ns i = Some mi" "nodeMesh ns j = Some mj"
  shows "\<exists>r. line (ls' ! k) = Some r \<and> nextLine s \<le> r \<and> r < nextLine s'
       \<and> lines s' r = lineFor rnd mn mx (ls ! k) i j (position (meshes s mi)) (position (meshes s mj))"
  using assms(1-5)
proof (induction ls arbitrary: s e ls' s' k)
  case Nil
  then show ?case by simp
next
  case (Cons l ls)
  from Cons.prems(1) have mb: "meshesBound ns ls" by (simp add: meshesBound_Cons)
  from Cons.prems(1,2) show ?case
  proof (cases rule: createLines_cases)
    case (skip ls1)
    with Cons.prems(4,5) obtain k' where k': "k = Suc k'"
      by (cases k) (auto simp: resolvedL_def)
    with Cons.prems(3-5) have p: "k' < length ls" "sourceObj (ls ! k') = Some i" "targetObj (ls ! k') = Some j"
      by auto
    from Cons.IH [OF mb skip(2) p] skip(3) k' show ?thesis by simp
  next
    case (draw i0 j0 mi0 mj0 ls1)
    let ?s1 = "newLine rnd mn mx l i0 j0 mi0 mj0 s"
    have f: "nextLine s' = nextLine ?s1 + length (filter resolvedL ls)"
      using createLines_frame [OF mb draw(5)] by simp
    show ?thesis
    proof (cases k)
      case 0
      with Cons.prems(4,5) draw(1,2) have e: "i0 = i" "j0 = j" by auto
      with draw(3,4) assms(6,7) have e': "mi0 = mi" "mj0 = mj" by auto
      have "lines s' (nextLine s) = lines ?s1 (nextLine s)"
        using mb draw(5) by (rule createLines_lines_old) simp
      with 0 draw(6) e e' f show ?thesis by simp
    next
      case (Suc k')
      with Cons.prems(3-5) have p: "k' < length ls" "sourceObj (ls ! k') = Some i" "targetObj (ls ! k') = Some j"
        by auto
      from Cons.IH [OF mb draw(5) p] draw(6) Suc show ?thesis by auto
    qed
  qed
qed

lemma resolves_iff:
  "resolves ns l \<longleftrightarrow> source l \<in> node_id ` set ns \<and> target l \<in> node_id ` set ns"
  by (simp add: resolves_def findNode_None)

lemma length_attachLines [simp]: "length (attachLines r ls) = length ls"
  by (induction ls arbitrary: r) auto

lemma attachLines_fields:
  "map source (attachLines r ls) = map source ls"
  "map target (attachLines r ls) = map target ls"
  "map weight (attachLines r ls) = map weight ls"
  "map value (attachLines r ls) = map value ls"
  "map sourceObj (attachLines r ls) = map sourceObj ls"
  "map targetObj (attachLines r ls) = map targetObj ls"
  "map resolvedL (attachLines r ls) = map resolvedL ls"
  "map linkWeight (attachLines r ls) = map linkWeight ls"
  by (induction ls arbitrary: r) (auto simp: resolvedL_def linkWeight_def)

lemma attachLines_nth:
  assumes "k < length ls"
  shows "source (attachLines r ls ! k) = source (ls ! k)"
    and "target (attachLines r ls ! k) = target (ls ! k)"
    and "weight (attachLines r ls ! k) = weight (ls ! k)"
    and "value (attachLines r ls ! k) = value (ls ! k)"
    and "sourceObj (attachLines r ls ! k) = sourceObj (ls ! k)"
    and "targetObj (attachLines r ls ! k) = targetObj (ls ! k)"
    and "resolvedL (attachLines r ls ! k) = resolvedL (ls ! k)"
    and "linkWeight (attachLines r ls ! k) = linkWeight (ls ! k)"
  using assms attachLines_fields [of r ls]
  by (metis length_attachLines nth_map)+

lemma attachLines_unresolved:
  "k < length ls \<Longrightarrow> \<not> resolvedL (ls ! k) \<Longrightarrow> attachLines r ls ! k = ls ! k"
proof (induction ls arbitrary: r k)
  case Nil
  then show ?case by simp
next
  case (Cons l ls)
  then show ?case by (cases k) auto
qed

lemma filter_attachLines:
  "map line (filter resolvedL (attachLines r ls)) = map Some [r..<r + length (filter resolvedL ls)]"
proof (induction ls arbitrary: r)
  case Nil
  show ?case by simp
next
  case (Cons l ls)
  have u: "[r..<Suc (r + length (filter resolvedL ls))] = r # [Suc r..<Suc (r + length (filter resolvedL ls))]"
    by (subst upt_rec) simp
  have v: "resolvedL (l\<lparr>line := Some r\<rparr>) = resolvedL l"
    by (simp add: resolvedL_def)
  show ?case by (simp add: Cons.IH u v del: upt_Suc)
qed

lemma bindLink_fields [simp]:
  "source (bindLink ns l) = source l"
  "target (bindLink ns l) = target l"
  "weight (bindLink ns l) = weight l"
  "value (bindLink ns l) = value l"
  "line (bindLink ns l) = line l"
  "sourceObj (bindLink ns l) = findNode ns (source l)"
  "targetObj (bindLink ns l) = findNode ns (target l)"
  "linkWeight (bindLink ns l) = linkWeight l"
  "resolvedL (bindLink ns l) = resolves ns l"
  by (simp_all add: bindLink_def linkWeight_def resolvedL_def resolves_def)

lemma resolves_placeNodes [simp]: "resolves (placeNodes rnd rand k m ns) l = resolves ns l"
  by (simp add: resolves_def findNode_placeNodes)

lemma nodeMesh_placeNodes:
  "i < length ns \<Longrightarrow> nodeMesh (placeNodes rnd rand k m ns) i = Some (m + i)"
  by (simp add: nodeMesh_def length_placeNodes nth_placeNodes)

lemma meshesBound_bind:
  "meshesBound (placeNodes rnd rand k m ns) (map (bindLink (placeNodes rnd rand k m ns)) ls)"
  unfolding meshesBound_def
  by (auto simp: findNode_placeNodes nodeMesh_placeNodes dest!: findNode_Some)

lemma renderGraph3D_unfold:
  assumes "loadedFont s = Some f"
  shows "renderGraph3D rnd rand built (Some g) s =
     (let ns = renderedNodes rnd rand g s;
          ls = map (bindLink ns) (links g);
          minWeight = Math_min (map linkWeight (links g));
          maxWeight = Math_max (map linkWeight (links g));
          (e, ls1, s3) = createLines rnd minWeight maxWeight ns ls (afterNodes f g s);
          s4 = s3\<lparr>currentGraph := Some \<lparr>nodes = ns, links = ls1\<rparr>\<rparr>
      in (case e of
            Some err \<Rightarrow> (Some err, s4)
          | None \<Rightarrow>
              (case built of
                 Some err \<Rightarrow> (Some err, s4\<lparr>simulation := map_option stop (simulation s4)\<rparr>)
               | None \<Rightarrow>
                   (None, s4\<lparr>simulation := Some \<lparr>sim_graph = \<lparr>nodes = ns, links = ls1\<rparr>,
                      sim_minWeight = minWeight, sim_maxWeight = maxWeight, running = True\<rparr>\<rparr>))))"
  using assms
  by (simp add: renderGraph3D_def initNodes_eq Let_def renderedNodes_def afterNodes_def comp_def
      split: prod.split option.split)

lemma renderGraph3D_result:
  assumes "loadedFont s = Some f"
  obtains s3 where
    "createLines rnd (Math_min (map linkWeight (links g))) (Math_max (map linkWeight (links g)))
       (renderedNodes rnd rand g s) (map (bindLink (renderedNodes rnd rand g s)) (links g))
       (afterNodes f g s) = (None, renderedLinks rnd rand g s, s3)"
    and "renderGraph3D rnd rand built (Some g) s =
       (built, s3\<lparr>currentGraph := Some (renderedGraph rnd rand g s),
            simulation := renderedSim rnd rand built g s\<rparr>)"
proof -
  let ?ns = "renderedNodes rnd rand g s"
  let ?ls = "map (bindLink ?ns) (links g)"
  let ?mn = "Math_min (map linkWeight (links g))"
  let ?mx = "Math_max (map linkWeight (links g))"
  obtain e ls1 s3 where r: "createLines rnd ?mn ?mx ?ns ?ls (afterNodes f g s) = (e, ls1, s3)"
    by (cases "createLines rnd ?mn ?mx ?ns ?ls (afterNodes f g s)") auto
  have mb: "meshesBound ?ns ?ls"
    unfolding renderedNodes_def by (rule meshesBound_bind)
  from createLines_frame [OF mb r]
  have e: "e = None" and l: "ls1 = renderedLinks rnd rand g s"
    by (simp_all add: renderedLinks_def afterNodes_def)
  show ?thesis
  proof (rule that)
    show "createLines rnd ?mn ?mx ?ns ?ls (afterNodes f g s) = (None, renderedLinks rnd rand g s, s3)"
      using r e l by simp
    show "renderGraph3D rnd rand built (Some g) s =
       (built, s3\<lparr>currentGraph := Some (renderedGraph rnd rand g s),
            simulation := renderedSim rnd rand built g s\<rparr>)"
    proof (cases built)
      case None
      with r e l show ?thesis
        by (simp add: renderGraph3D_unfold [OF assms] Let_def renderedSim_def renderedGraph_def)
    next
      case (Some err)
      from createLines_frame [OF mb r] have "simulation s3 = simulation s"
        by (simp add: afterNodes_def)
      with Some r e l show ?thesis
        by (simp add: renderGraph3D_unfold [OF assms] Let_def renderedSim_def renderedGraph_def)
    qed
  qed
qed

lemma lineFor_bindLink [simp]: "lineFor rnd mn mx (bindLink ns l) = lineFor rnd mn mx l"
  by (simp add: lineFor_def fun_eq_iff)

lemma afterNodes_fields [simp]:
  "loadedFont (afterNodes f g s) = loadedFont s"
  "simulation (afterNodes f g s) = simulation s"
  "currentGraph (afterNodes f g s) = Some g"
  "children (afterNodes f g s) = map MeshChild [nextMesh s..<nextMesh s + length (nodes g)]"
  "meshes (afterNodes f g s) = addMeshes f (nextMesh s) (nodes g) (meshes s)"
  "nextMesh (afterNodes f g s) = nextMesh s + length (nodes g)"
  "lines (afterNodes f g s) = lines s"
  "nextLine (afterNodes f g s) = nextLine s"
  "highlightedNode (afterNodes f g s) = highlightedNode s"
  "tooltip (afterNodes f g s) = tooltip s"
  "console (afterNodes f g s) = console s"
  by (simp_all add: afterNodes_def)

lemma length_renderedNodes [simp]: "length (renderedNodes rnd rand g s) = length (nodes g)"
  by (simp add: renderedNodes_def length_placeNodes)

lemma length_renderedLinks [simp]: "length (renderedLinks rnd rand g s) = length (links g)"
  by (simp add: renderedLinks_def)

lemma findNode_renderedNodes [simp]: "findNode (renderedNodes rnd rand g s) x = findNode (nodes g) x"
  by (simp add: renderedNodes_def findNode_placeNodes)

lemma resolves_renderedNodes [simp]: "resolves (renderedNodes rnd rand g s) = resolves (nodes g)"
  by (simp add: renderedNodes_def fun_eq_iff)

lemma nodeMesh_renderedNodes:
  "i < length (nodes g) \<Longrightarrow> nodeMesh (renderedNodes rnd rand g s) i = Some (nextMesh s + i)"
  by (simp add: renderedNodes_def nodeMesh_placeNodes)

lemma resolvedL_bindLink [simp]: "resolvedL \<circ> bindLink ns = resolves ns"
  by (simp add: fun_eq_iff)

text \<open>What a call of renderGraph3D with the font loaded returns.\<close>

lemma render_frame:
  assumes "loadedFont s = Some f" "renderGraph3D rnd rand built (Some g) s = (e, s')"
  shows "e = built"
    and "simulation s' = renderedSim rnd rand built g s"
    and "children s' = map MeshChild [nextMesh s..<nextMesh s + length (nodes g)]
           @ map LineChild [nextLine s..<nextLine s + length (filter (resolves (nodes g)) (links g))]"
    and "nextMesh s' = nextMesh s + length (nodes g)"
    and "nextLine s' = nextLine s + length (filter (resolves (nodes g)) (links g))"
    and "currentGraph s' = Some (renderedGraph rnd rand g s)"
    and "loadedFont s' = loadedFont s"
    and "highlightedNode s' = highlightedNode s"
    and "tooltip s' = tooltip s"
    and "console s' = console s"
proof -
  let ?ns = "renderedNodes rnd rand g s"
  let ?ls = "map (bindLink ?ns) (links g)"
  obtain s3 where c: "createLines rnd (Math_min (map linkWeight (links g)))
       (Math_max (map linkWeight (links g))) ?ns ?ls (afterNodes f g s) = (None, renderedLinks rnd rand g s, s3)"
    and r: "renderGraph3D rnd rand built (Some g) s =
       (built, s3\<lparr>currentGraph := Some (renderedGraph rnd rand g s),
            simulation := renderedSim rnd rand built g s\<rparr>)"
    using renderGraph3D_result [OF assms(1)] by blast
  have mb: "meshesBound ?ns ?ls"
    unfolding renderedNodes_def by (rule meshesBound_bind)
  note fr = createLines_frame [OF mb c]
  from r assms(2) have e: "e = built"
    and s': "s' = s3\<lparr>currentGraph := Some (renderedGraph rnd rand g s),
            simulation := renderedSim rnd rand built g s\<rparr>"
    by simp_all
  show "e = built" by (rule e)
  show "simulation s' = renderedSim rnd rand built g s" by (simp add: s')
  show "children s' = map MeshChild [nextMesh s..<nextMesh s + length (nodes g)]
           @ map LineChild [nextLine s..<nextLine s + length (filter (resolves (nodes g)) (links g))]"
    using fr by (simp add: s')
  show "nextMesh s' = nextMesh s + length (nodes g)" using fr by (simp add: s')
  show "nextLine s' = nextLine s + length (filter (resolves (nodes g)) (links g))"
    using fr by (simp add: s')
  show "currentGraph s' = Some (renderedGraph rnd rand g s)" by (simp add: s')
  show "loadedFont s' = loadedFont s" using fr by (simp add: s')
  show "highlightedNode s' = highlightedNode s" using fr by (simp add: s')
  show "tooltip s' = tooltip s" using fr by (simp add: s')
  show "console s' = console s" using fr by (simp add: s')
qed

lemma renderedSim_None:
  "renderedSim rnd rand None g s =
     Some \<lparr>sim_graph = renderedGraph rnd rand g s,
           sim_minWeight = Math_min (map linkWeight (links g)),
           sim_maxWeight = Math_max (map linkWeight (links g)), running = True\<rparr>"
  by (simp add: renderedSim_def)

lemma renderedSim_running:
  "renderedSim rnd rand built g s = Some sim \<Longrightarrow> running sim \<Longrightarrow>
     built = None \<and> sim_graph sim = renderedGraph rnd rand g s
       \<and> sim_minWeight sim = Math_min (map linkWeight (links g))
       \<and> sim_maxWeight sim = Math_max (map linkWeight (links g))"
  by (cases built) (auto simp: renderedSim_def stop_def)

lemma renderedGraph_fields [simp]:
  "nodes (renderedGraph rnd rand g s) = renderedNodes rnd rand g s"
  "links (renderedGraph rnd rand g s) = renderedLinks rnd rand g s"
  by (simp_all add: renderedGraph_def)

lemma render_lines_old:
  assumes "loadedFont s = Some f" "renderGraph3D rnd rand built (Some g) s = (e, s')" "r < nextLine s"
  shows "lines s' r = lines s r"
proof -
  let ?ns = "renderedNodes rnd rand g s"
  let ?ls = "map (bindLink ?ns) (links g)"
  obtain s3 where c: "createLines rnd (Math_min (map linkWeight (links g)))
       (Math_max (map linkWeight (links g))) ?ns ?ls (afterNodes f g s) = (None, renderedLinks rnd rand g s, s3)"
    and r: "renderGraph3D rnd rand built (Some g) s =
       (built, s3\<lparr>currentGraph := Some (renderedGraph rnd rand g s),
            simulation := renderedSim rnd rand built g s\<rparr>)"
    using renderGraph3D_result [OF assms(1)] by blast
  have mb: "meshesBound ?ns ?ls"
    unfolding renderedNodes_def by (rule meshesBound_bind)
  have "lines s3 r = lines (afterNodes f g s) r"
    using mb c by (rule createLines_lines_old) (simp add: assms(3))
  with r assms(2) show ?thesis by auto
qed

lemma render_mesh:
  assumes "loadedFont s = Some f" "renderGraph3D rnd rand built (Some g) s = (e, s')"
  shows "position (meshes s' m) = position (addMeshes f (nextMesh s) (nodes g) (meshes s) m)"
    and "mesh_color (meshes s' m) = mesh_color (addMeshes f (nextMesh s) (nodes g) (meshes s) m)"
    and "label (meshes s' m) = label (addMeshes f (nextMesh s) (nodes g) (meshes s) m)"
    and "label_font (meshes s' m) = label_font (addMeshes f (nextMesh s) (nodes g) (meshes s) m)"
    and "ud_id (meshes s' m) = ud_id (addMeshes f (nextMesh s) (nodes g) (meshes s) m)"
    and "ud_links (meshes s' m) = ud_links (addMeshes f (nextMesh s) (nodes g) (meshes s) m)
           @ incident (renderedNodes rnd rand g s) m (renderedLinks rnd rand g s)"
proof -
  let ?ns = "renderedNodes rnd rand g s"
  let ?ls = "map (bindLink ?ns) (links g)"
  obtain s3 where c: "createLines rnd (Math_min (map linkWeight (links g)))
       (Math_max (map linkWeight (links g))) ?ns ?ls (afterNodes f g s) = (None, renderedLinks rnd rand g s, s3)"
    and r: "renderGraph3D rnd rand built (Some g) s =
       (built, s3\<lparr>currentGraph := Some (renderedGraph rnd rand g s),
            simulation := renderedSim rnd rand built g s\<rparr>)"
    using renderGraph3D_result [OF assms(1)] by blast
  have mb: "meshesBound ?ns ?ls"
    unfolding renderedNodes_def by (rule meshesBound_bind)
  from r assms(2) have m: "meshes s' = meshes s3" by auto
  note cm = createLines_mesh [OF mb c, of m]
  show "position (meshes s' m) = position (addMeshes f (nextMesh s) (nodes g) (meshes s) m)"
    using cm by (simp add: m)
  show "mesh_color (meshes s' m) = mesh_color (addMeshes f (nextMesh s) (nodes g) (meshes s) m)"
    using cm by (simp add: m)
  show "label (meshes s' m) = label (addMeshes f (nextMesh s) (nodes g) (meshes s) m)"
    using cm by (simp add: m)
  show "label_font (meshes s' m) = label_font (addMeshes f (nextMesh s) (nodes g) (meshes s) m)"
    using cm by (simp add: m)
  show "ud_id (meshes s' m) = ud_id (addMeshes f (nextMesh s) (nodes g) (meshes s) m)"
    using cm by (simp add: m)
  show "ud_links (meshes s' m) = ud_links (addMeshes f (nextMesh s) (nodes g) (meshes s) m)
           @ incident ?ns m (renderedLinks rnd rand g s)"
    using cm by (simp add: m)
qed

lemma render_line_of_link:
  assumes "loadedFont s = Some f" "renderGraph3D rnd rand built (Some g) s = (e, s')"
    and "k < length (links g)"
    and "findNode (nodes g) (source (links g ! k)) = Some i"
    and "findNode (nodes g) (target (links g ! k)) = Some j"
  shows "\<exists>r. line (renderedLinks rnd rand g s ! k) = Some r \<and> nextLine s \<le> r \<and> r < nextLine s'
       \<and> lines s' r = lineFor rnd (Math_min (map linkWeight (links g)))
            (Math_max (map linkWeight (links g))) (links g ! k) i j origin origin"
proof -
  let ?ns = "renderedNodes rnd rand g s"
  let ?ls = "map (bindLink ?ns) (links g)"
  let ?mn = "Math_min (map linkWeight (links g))"
  let ?mx = "Math_max (map linkWeight (links g))"
  obtain s3 where c: "createLines rnd ?mn ?mx ?ns ?ls (afterNodes f g s) = (None, renderedLinks rnd rand g s, s3)"
    and r: "renderGraph3D rnd rand built (Some g) s =
       (built, s3\<lparr>currentGraph := Some (renderedGraph rnd rand g s),
            simulation := renderedSim rnd rand built g s\<rparr>)"
    using renderGraph3D_result [OF assms(1)] by blast
  have mb: "meshesBound ?ns ?ls"
    unfolding renderedNodes_def by (rule meshesBound_bind)
  from r assms(2) have l: "lines s' = lines s3" and n: "nextLine s' = nextLine s3" by auto
  have ij: "i < length (nodes g)" "j < length (nodes g)"
    using assms(4,5) by (auto dest: findNode_Some)
  have k: "k < length ?ls" using assms(3) by simp
  have so: "sourceObj (?ls ! k) = Some i" "targetObj (?ls ! k) = Some j"
    using assms(3-5) by simp_all
  have nm: "nodeMesh ?ns i = Some (nextMesh s + i)" "nodeMesh ?ns j = Some (nextMesh s + j)"
    using ij by (simp_all add: nodeMesh_renderedNodes)
  have p: "position (addMeshes f (nextMesh s) (nodes g) (meshes s) (nextMesh s + i)) = origin"
      "position (addMeshes f (nextMesh s) (nodes g) (meshes s) (nextMesh s + j)) = origin"
    using ij by (simp_all add: addMeshes_apply textMesh_def)
  from createLines_lines_new [OF mb c k so nm] assms(3) show ?thesis
    by (simp add: l n p)
qed

subsection \<open>The tick\<close>

lemma length_moveNodes [simp]: "length (moveNodes pos k ns) = length ns"
  by (induction ns arbitrary: k) auto

lemma mesh_moveNodes [simp]: "map mesh (moveNodes pos k ns) = map mesh ns"
  by (induction ns arbitrary: k) auto

lemma nth_moveNodes:
  "i < length ns \<Longrightarrow>
     mesh (moveNodes pos k ns ! i) = mesh (ns ! i)
     \<and> node_id (moveNodes pos k ns ! i) = node_id (ns ! i)
     \<and> (node_x (moveNodes pos k ns ! i), node_y (moveNodes pos k ns ! i), node_z (moveNodes pos k ns ! i))
         = pos (k + i)"
proof (induction ns arbitrary: k i)
  case Nil
  then show ?case by simp
next
  case (Cons n ns)
  then show ?case by (cases i) auto
qed

lemma nodeMesh_moveNodes [simp]: "nodeMesh (moveNodes pos k ns) i = nodeMesh ns i"
  by (simp add: nodeMesh_def nth_moveNodes)

lemma updateNodes_eq: "updateNodes ns s = s\<lparr>meshes := placeMeshes ns (meshes s)\<rparr>"
  by (induction ns arbitrary: s) (auto split: option.splits)

lemma placeMeshes_fields [simp]:
  "mesh_color (placeMeshes ns M m) = mesh_color (M m)"
  "label (placeMeshes ns M m) = label (M m)"
  "label_font (placeMeshes ns M m) = label_font (M m)"
  "ud_id (placeMeshes ns M m) = ud_id (M m)"
  "ud_links (placeMeshes ns M m) = ud_links (M m)"
  by (induction ns arbitrary: M; simp split: option.splits)+

lemma placeMeshes_other:
  "Some m \<notin> set (map mesh ns) \<Longrightarrow> placeMeshes ns M m = M m"
  by (induction ns arbitrary: M) (auto split: option.splits)

lemma placeMeshes_position:
  assumes "distinct (map mesh ns)" "i < length ns" "mesh (ns ! i) = Some m"
  shows "position (placeMeshes ns M m) = (node_x (ns ! i), node_y (ns ! i), node_z (ns ! i))"
  using assms
proof (induction ns arbitrary: M i)
  case Nil
  then show ?case by simp
next
  case (Cons n ns)
  show ?case
  proof (cases i)
    case 0
    with Cons.prems have n: "mesh n = Some m" and o: "Some m \<notin> set (map mesh ns)" by auto
    show ?thesis using 0 by (simp add: n placeMeshes_other [OF o])
  next
    case (Suc i')
    with Cons.prems have "distinct (map mesh ns)" "i' < length ns" "mesh (ns ! i') = Some m" by auto
    from Cons.IH [OF this] Suc show ?thesis by simp
  qed
qed

lemma twoPoints_upd [simp]: "twoPoints (x\<lparr>points := Some [p1, p2], line_color := c, ud_weight := w\<rparr>)"
  by (simp add: twoPoints_def)

lemma update_two: "length pts = 2 \<Longrightarrow> pts[0 := p1, Suc 0 := p2] = [p1, p2]"
  by (cases pts; cases "tl pts") auto

lemma drawn_Cons:
  "drawn L (l # ls) \<longleftrightarrow> (resolvedL l \<longrightarrow> (\<exists>r. line l = Some r \<and> twoPoints (L r))) \<and> drawn L ls"
  by (auto simp: drawn_def)

lemma drawn_upd: "drawn L ls \<Longrightarrow> twoPoints x \<Longrightarrow> drawn (L(r := x)) ls"
  by (auto simp: drawn_def)

declare updateLinks.simps(2) [simp del]

lemma updateLinks_skip:
  assumes "\<not> resolvedL l"
  shows "updateLinks rnd mn mx ns (l # ls) s =
     (let (e, ls1, s2) = updateLinks rnd mn mx ns ls s in (e, l # ls1, s2))"
  using assms by (auto simp: updateLinks.simps(2) resolvedL_def split: option.splits)

lemma updateLinks_sync:
  assumes "sourceObj l = Some i" "targetObj l = Some j" "nodeMesh ns i = Some mi" "nodeMesh ns j = Some mj"
    and "line l = Some r" "twoPoints (lines s r)"
  shows "updateLinks rnd mn mx ns (l # ls) s =
     (let (e, ls1, s2) = updateLinks rnd mn mx ns ls
            (s\<lparr>lines := (lines s)(r := (lines s r)\<lparr>points := Some [fround3 (position (meshes s mi)), fround3 (position (meshes s mj))],
                  line_color := getColorForWeight rnd (linkWeight l) mn mx, ud_weight := linkWeight l\<rparr>)\<rparr>)
      in (e, l # ls1, s2))"
proof -
  from assms(6) obtain pts where p: "points (lines s r) = Some pts" "length pts = 2"
    by (auto simp: twoPoints_def)
  show ?thesis
    using assms(1-5) p by (simp add: updateLinks.simps(2) updateLine_def Let_def update_two)
qed

lemma updateLinks_eq:
  assumes "meshesBound ns ls" "drawn (lines s) ls"
  shows "updateLinks rnd mn mx ns ls s =
     (None, ls, s\<lparr>lines := syncLines rnd mn mx ns (meshes s) ls (lines s)\<rparr>)"
  using assms
proof (induction ls arbitrary: s)
  case Nil
  show ?case by simp
next
  case (Cons l ls)
  from Cons.prems have mb: "meshesBound ns ls" and dr: "drawn (lines s) ls"
    by (simp_all add: meshesBound_Cons drawn_Cons)
  show ?case
  proof (cases "resolvedL l")
    case False
    then have "sourceObj l = None \<or> targetObj l = None" by (auto simp: resolvedL_def)
    then show ?thesis
      by (auto simp: updateLinks_skip [OF False] Cons.IH [OF mb dr] split: option.splits)
  next
    case True
    then obtain i j where ij: "sourceObj l = Some i" "targetObj l = Some j"
      by (auto simp: resolvedL_def)
    with Cons.prems(1) obtain mi mj where m: "nodeMesh ns i = Some mi" "nodeMesh ns j = Some mj"
      by (auto simp: meshesBound_Cons)
    from Cons.prems(2) True obtain r where r: "line l = Some r" "twoPoints (lines s r)"
      by (auto simp: drawn_Cons)
    let ?x = "(lines s r)\<lparr>points := Some [fround3 (position (meshes s mi)), fround3 (position (meshes s mj))],
                  line_color := getColorForWeight rnd (linkWeight l) mn mx, ud_weight := linkWeight l\<rparr>"
    let ?s1 = "s\<lparr>lines := (lines s)(r := ?x)\<rparr>"
    have dr1: "drawn (lines ?s1) ls"
      using dr by (simp add: drawn_upd)
    have "updateLinks rnd mn mx ns (l # ls) s =
        (let (e, ls1, s2) = updateLinks rnd mn mx ns ls ?s1 in (e, l # ls1, s2))"
      by (rule updateLinks_sync [OF ij m r])
    also have "\<dots> = (None, l # ls, ?s1\<lparr>lines := syncLines rnd mn mx ns (meshes ?s1) ls (lines ?s1)\<rparr>)"
      by (simp only: Cons.IH [OF mb dr1] Let_def prod.case)
    also have "?s1\<lparr>lines := syncLines rnd mn mx ns (meshes ?s1) ls (lines ?s1)\<rparr> =
        s\<lparr>lines := syncLines rnd mn mx ns (meshes s) (l # ls) (lines s)\<rparr>"
      by (simp add: ij m r)
    finally show ?thesis .
  qed
qed

lemma syncLines_fields [simp]:
  "transparent (syncLines rnd mn mx ns M ls L r) = transparent (L r)"
  "opacity (syncLines rnd mn mx ns M ls L r) = opacity (L r)"
  "ud_source (syncLines rnd mn mx ns M ls L r) = ud_source (L r)"
  "ud_target (syncLines rnd mn mx ns M ls L r) = ud_target (L r)"
  "originalColor (syncLines rnd mn mx ns M ls L r) = originalColor (L r)"
  by (induction ls arbitrary: L; simp split: option.splits)+

lemma syncLines_twoPoints:
  "twoPoints (L r) \<Longrightarrow> twoPoints (syncLines rnd mn mx ns M ls L r)"
proof (induction ls arbitrary: L)
  case Nil
  then show ?case by simp
next
  case (Cons l ls)
  show ?case
    using Cons.prems by (auto split: option.splits intro!: Cons.IH)
qed

lemma syncLines_other:
  "\<forall>l \<in> set ls. resolvedL l \<longrightarrow> line l \<noteq> Some r \<Longrightarrow> syncLines rnd mn mx ns M ls L r = L r"
proof (induction ls arbitrary: L)
  case Nil
  show ?case by simp
next
  case (Cons l ls)
  then show ?case by (auto simp: resolvedL_def split: option.splits)
qed

lemma syncLines_own:
  assumes "distinct (map line (filter resolvedL ls))" "l \<in> set ls"
    and "sourceObj l = Some i" "targetObj l = Some j" "line l = Some r"
    and "nodeMesh ns i = Some mi" "nodeMesh ns j = Some mj"
  shows "syncLines rnd mn mx ns M ls L r =
     (L r)\<lparr>points := Some [fround3 (position (M mi)), fround3 (position (M mj))],
       line_color := getColorForWeight rnd (linkWeight l) mn mx, ud_weight := linkWeight l\<rparr>"
  using assms(1,2)
proof (induction ls arbitrary: L)
  case Nil
  then show ?case by simp
next
  case (Cons a ls)
  have rl: "resolvedL l" using assms(3,4) by (simp add: resolvedL_def)
  show ?case
  proof (cases "a = l")
    case True
    with Cons.prems(1) rl have "Some r \<notin> set (map line (filter resolvedL ls))"
      using assms(5) by simp
    then have "\<forall>l' \<in> set ls. resolvedL l' \<longrightarrow> line l' \<noteq> Some r"
      by force
    from syncLines_other [OF this] True show ?thesis
      by (simp add: assms(3-7))
  next
    case False
    with Cons.prems have d: "distinct (map line (filter resolvedL ls))" and i: "l \<in> set ls"
      by (auto split: if_splits)
    have "Some r \<in> set (map line (filter resolvedL ls))"
      using i rl assms(5) by force
    then have o: "resolvedL a \<Longrightarrow> line a \<noteq> Some r"
      using Cons.prems(1) by auto
    show ?thesis
      using Cons.IH [OF d i] o
      by (auto simp: resolvedL_def split: option.splits)
  qed
qed

subsection \<open>Colours of lines\<close>

lemma colorFor_good:
  assumes "roundingOK rnd" "l \<in> set ls"
  shows "getColorForWeight rnd (linkWeight l) (Math_min (map linkWeight ls)) (Math_max (map linkWeight ls))
       \<noteq> highlightColor"
  unfolding highlightColor_def
  using assms(1) weight_between [OF assms(2)] by (rule colour_not_yellow)

subsection \<open>Invariants\<close>

lemma mesh_nth_Some:
  "None \<notin> mesh ` set ns \<Longrightarrow> i < length ns \<Longrightarrow> \<exists>m. mesh (ns ! i) = Some m"
  by (metis image_eqI not_None_eq nth_mem)

lemma graphOK_nodeMesh:
  assumes "graphOK L g" "l \<in> set (links g)" "sourceObj l = Some i" "targetObj l = Some j"
  shows "\<exists>mi mj. nodeMesh (nodes g) i = Some mi \<and> nodeMesh (nodes g) j = Some mj
       \<and> i < length (nodes g) \<and> j < length (nodes g)
       \<and> mesh (nodes g ! i) = Some mi \<and> mesh (nodes g ! j) = Some mj"
proof -
  from assms have ij: "i < length (nodes g)" "j < length (nodes g)"
    by (auto simp: graphOK_def)
  from assms(1) have n: "None \<notin> mesh ` set (nodes g)" by (simp add: graphOK_def)
  from mesh_nth_Some [OF n ij(1)] mesh_nth_Some [OF n ij(2)]
  obtain mi mj where "mesh (nodes g ! i) = Some mi" "mesh (nodes g ! j) = Some mj" by blast
  with ij show ?thesis by (simp add: nodeMesh_def)
qed

lemma graphOK_meshesBound: "graphOK L g \<Longrightarrow> meshesBound (nodes g) (links g)"
  unfolding meshesBound_def by (blast dest: graphOK_nodeMesh)

text \<open>The graph that renderGraph3D hands to the simulation.\<close>

lemma distinct_map_Some: "distinct (map Some xs) = distinct xs"
  by (simp add: distinct_map)

lemma render_graphOK:
  assumes "loadedFont s = Some f" "renderGraph3D rnd rand built (Some g) s = (e, s')"
  shows "graphOK (lines s') (renderedGraph rnd rand g s)"
proof -
  let ?ns = "renderedNodes rnd rand g s" and ?ls = "renderedLinks rnd rand g s"
  have m: "map mesh ?ns = map Some [nextMesh s..<nextMesh s + length (nodes g)]"
    by (simp add: renderedNodes_def mesh_placeNodes)
  have "None \<notin> set (map mesh ?ns)" unfolding m by auto
  then have 1: "None \<notin> mesh ` set ?ns" by simp
  have 2: "distinct (map mesh ?ns)" unfolding m by (simp add: distinct_map_Some)
  have 3: "\<forall>l \<in> set ?ls. (\<forall>i. sourceObj l = Some i \<longrightarrow> i < length ?ns)
            \<and> (\<forall>j. targetObj l = Some j \<longrightarrow> j < length ?ns)"
  proof
    fix l assume "l \<in> set ?ls"
    then obtain k where k: "k < length (links g)" "l = ?ls ! k"
      by (auto simp: in_set_conv_nth)
    have "sourceObj l = findNode (nodes g) (source (links g ! k))"
      "targetObj l = findNode (nodes g) (target (links g ! k))"
      using k by (simp_all add: renderedLinks_def attachLines_nth)
    then show "(\<forall>i. sourceObj l = Some i \<longrightarrow> i < length ?ns)
            \<and> (\<forall>j. targetObj l = Some j \<longrightarrow> j < length ?ns)"
      by (auto dest: findNode_Some)
  qed
  have 4: "drawn (lines s') ?ls"
    unfolding drawn_def
  proof (intro ballI impI)
    fix l assume "l \<in> set ?ls" and rl: "resolvedL l"
    then obtain k where k: "k < length (links g)" "l = ?ls ! k"
      by (auto simp: in_set_conv_nth)
    have so: "sourceObj l = findNode (nodes g) (source (links g ! k))"
      "targetObj l = findNode (nodes g) (target (links g ! k))"
      using k by (simp_all add: renderedLinks_def attachLines_nth)
    with rl obtain i j where ij: "findNode (nodes g) (source (links g ! k)) = Some i"
      "findNode (nodes g) (target (links g ! k)) = Some j"
      by (auto simp: resolvedL_def)
    from render_line_of_link [OF assms k(1) ij] k(2)
    show "\<exists>r. line l = Some r \<and> twoPoints (lines s' r)"
      by (auto simp: lineFor_def twoPoints_def)
  qed
  have 5: "distinct (map line (filter resolvedL ?ls))"
    by (simp add: renderedLinks_def filter_attachLines distinct_map_Some)
  from 1 2 3 4 5 show ?thesis unfolding graphOK_def by simp
qed

lemma render_line_children:
  assumes "loadedFont s = Some f" "renderGraph3D rnd rand built (Some g) s = (e, s')"
    and "LineChild r \<in> set (children s')"
  shows "\<exists>k i j. k < length (links g)
       \<and> findNode (nodes g) (source (links g ! k)) = Some i
       \<and> findNode (nodes g) (target (links g ! k)) = Some j
       \<and> line (renderedLinks rnd rand g s ! k) = Some r
       \<and> lines s' r = lineFor rnd (Math_min (map linkWeight (links g)))
            (Math_max (map linkWeight (links g))) (links g ! k) i j origin origin"
proof -
  let ?ls = "renderedLinks rnd rand g s"
  let ?bs = "map (bindLink (renderedNodes rnd rand g s)) (links g)"
  from assms(3) have "r \<in> set [nextLine s..<nextLine s + length (filter (resolves (nodes g)) (links g))]"
    by (auto simp: render_frame(3) [OF assms(1,2)])
  then have "Some r \<in> set (map line (filter resolvedL ?ls))"
    by (simp add: renderedLinks_def filter_attachLines)
  then obtain l where l: "l \<in> set ?ls" "resolvedL l" "line l = Some r" by auto
  then obtain k where k: "k < length (links g)" "l = ?ls ! k"
    by (auto simp: in_set_conv_nth)
  have so: "sourceObj l = findNode (nodes g) (source (links g ! k))"
    "targetObj l = findNode (nodes g) (target (links g ! k))"
    using k by (simp_all add: renderedLinks_def attachLines_nth)
  with l(2) obtain i j where ij: "findNode (nodes g) (source (links g ! k)) = Some i"
    "findNode (nodes g) (target (links g ! k)) = Some j"
    by (auto simp: resolvedL_def)
  from render_line_of_link [OF assms(1,2) k(1) ij] l(3) k show ?thesis
    using ij by auto
qed

subsection \<open>The pointer\<close>

lemma resetMesh_idem [simp]: "resetMesh (resetMesh x) = resetMesh x"
  by (simp add: resetMesh_def)

lemma resetLine_idem [simp]: "resetLine (resetLine x) = resetLine x"
  by (simp add: resetLine_def originalOrGray_def)

lemma fold_resetChild:
  "fold resetChild cs s =
     s\<lparr>meshes := (\<lambda>m. if MeshChild m \<in> set cs then resetMesh (meshes s m) else meshes s m),
       lines := (\<lambda>r. if LineChild r \<in> set cs then resetLine (lines s r) else lines s r)\<rparr>"
proof (induction cs arbitrary: s)
  case Nil
  show ?case by simp
next
  case (Cons c cs)
  let ?s1 = "resetChild c s"
  have "fold resetChild (c # cs) s = fold resetChild cs ?s1" by simp
  also have "\<dots> =
     ?s1\<lparr>meshes := (\<lambda>m. if MeshChild m \<in> set cs then resetMesh (meshes ?s1 m) else meshes ?s1 m),
         lines := (\<lambda>r. if LineChild r \<in> set cs then resetLine (lines ?s1 r) else lines ?s1 r)\<rparr>"
    by (rule Cons.IH)
  also have "\<dots> =
     s\<lparr>meshes := (\<lambda>m. if MeshChild m \<in> set (c # cs) then resetMesh (meshes s m) else meshes s m),
       lines := (\<lambda>r. if LineChild r \<in> set (c # cs) then resetLine (lines s r) else lines s r)\<rparr>"
    by (intro state.equality)
      (auto simp: resetChild_def fun_eq_iff resetMesh_def resetLine_def originalOrGray_def
        split: child.splits)
  finally show ?case .
qed

lemma resetHighlights_eq:
  "resetHighlights s =
     s\<lparr>meshes := (\<lambda>m. if MeshChild m \<in> set (children s) then resetMesh (meshes s m) else meshes s m),
       lines := (\<lambda>r. if LineChild r \<in> set (children s) then resetLine (lines s r) else lines s r),
       highlightedNode := None\<rparr>"
  by (intro state.equality) (simp_all add: resetHighlights_def fold_resetChild)

lemma paintLine_idem [simp]: "paintLine (paintLine x) = paintLine x"
  by (simp add: paintLine_def)

lemma fold_highlightLine:
  "fold highlightLine rs s =
     s\<lparr>lines := (\<lambda>r. if r \<in> set rs then paintLine (lines s r) else lines s r)\<rparr>"
proof (induction rs arbitrary: s)
  case Nil
  show ?case by simp
next
  case (Cons r0 rs)
  let ?s1 = "highlightLine r0 s"
  have "fold highlightLine (r0 # rs) s = fold highlightLine rs ?s1" by simp
  also have "\<dots> = ?s1\<lparr>lines := (\<lambda>r. if r \<in> set rs then paintLine (lines ?s1 r) else lines ?s1 r)\<rparr>"
    by (rule Cons.IH)
  also have "\<dots> = s\<lparr>lines := (\<lambda>r. if r \<in> set (r0 # rs) then paintLine (lines s r) else lines s r)\<rparr>"
    by (intro state.equality) (auto simp: highlightLine_def fun_eq_iff paintLine_def)
  finally show ?case .
qed

lemma mousemove_none:
  "mousemove [] s =
     s\<lparr>tooltip := (tooltip s)\<lparr>visibility := ''hidden''\<rparr>,
       meshes := (\<lambda>m. if MeshChild m \<in> set (children s) then resetMesh (meshes s m) else meshes s m),
       lines := (\<lambda>r. if LineChild r \<in> set (children s) then resetLine (lines s r) else lines s r),
       highlightedNode := None\<rparr>"
  by (intro state.equality) (simp_all add: mousemove_def resetHighlights_eq fun_eq_iff)

lemma mousemove_same:
  "highlightedNode s = Some obj \<Longrightarrow>
     mousemove (obj # rest) s =
       s\<lparr>tooltip := \<lparr>assignedHTML = ud_id (meshes s obj), visibility = ''visible''\<rparr>\<rparr>"
  by (simp add: mousemove_def)

lemma mousemove_other:
  assumes "highlightedNode s \<noteq> Some obj"
  shows "mousemove (obj # rest) s =
       s\<lparr>tooltip := \<lparr>assignedHTML = ud_id (meshes s obj), visibility = ''visible''\<rparr>,
         meshes := hoverMeshes obj s, lines := hoverLines obj s, highlightedNode := Some obj\<rparr>"
  using assms
  by (intro state.equality)
    (auto simp: mousemove_def resetHighlights_eq fold_highlightLine Let_def hoverMeshes_def
      hoverLines_def fun_eq_iff resetMesh_def)

subsection \<open>What a tick does\<close>

lemma meshesBound_moveNodes [simp]: "meshesBound (moveNodes pos k ns) ls = meshesBound ns ls"
  by (simp add: meshesBound_def)

lemma graphOK_moveNodes:
  "graphOK L g \<Longrightarrow> graphOK L (g\<lparr>nodes := moveNodes pos k (nodes g)\<rparr>)"
proof -
  have "mesh ` set (moveNodes pos k (nodes g)) = mesh ` set (nodes g)"
    by (simp only: set_map [symmetric] mesh_moveNodes)
  then show "graphOK L g \<Longrightarrow> graphOK L (g\<lparr>nodes := moveNodes pos k (nodes g)\<rparr>)"
    unfolding graphOK_def by simp
qed

lemma tick_None: "simulation s = None \<Longrightarrow> tick rnd pos s = (None, s)"
  by (simp add: tick_def)

lemma tick_stopped: "simulation s = Some sim \<Longrightarrow> \<not> running sim \<Longrightarrow> tick rnd pos s = (None, s)"
  by (simp add: tick_def)

lemma tick_cases:
  obtains (idle) "tick rnd pos s = (None, s)" "\<forall>sim. simulation s = Some sim \<longrightarrow> \<not> running sim"
  | (runs) sim where "simulation s = Some sim" "running sim"
proof (cases "simulation s")
  case None
  then show ?thesis by (intro idle) (simp_all add: tick_None)
next
  case (Some sim)
  then show ?thesis by (cases "running sim") (auto intro: idle runs simp: tick_stopped)
qed

lemma tick_Some:
  assumes "simulation s = Some sim" "graphOK (lines s) (sim_graph sim)" "running sim"
  shows "tick rnd pos s = (None, ticked rnd pos sim s)"
proof -
  let ?ns = "moveNodes pos 0 (nodes (sim_graph sim))"
  let ?g = "(sim_graph sim)\<lparr>nodes := ?ns\<rparr>"
  let ?sim = "sim\<lparr>sim_graph := ?g\<rparr>"
  let ?s0 = "s\<lparr>simulation := Some ?sim\<rparr>"
  have st: "simulationStep pos s = ?s0"
    by (simp add: simulationStep_def assms(1))
  have mb: "meshesBound ?ns (links (sim_graph sim))"
    using graphOK_meshesBound [OF assms(2)] by simp
  let ?u = "updateNodes ?ns ?s0"
  have dr': "drawn (lines ?u) (links (sim_graph sim))"
    using assms(2) by (simp add: graphOK_def updateNodes_eq)
  have ul: "updateLinks rnd (sim_minWeight sim) (sim_maxWeight sim) ?ns (links (sim_graph sim)) ?u =
      (None, links (sim_graph sim),
       ?u\<lparr>lines := syncLines rnd (sim_minWeight sim) (sim_maxWeight sim) ?ns (meshes ?u)
           (links (sim_graph sim)) (lines ?u)\<rparr>)"
    using mb dr' by (rule updateLinks_eq)
  have "tickHandler rnd ?s0 =
      (None, (?u\<lparr>lines := syncLines rnd (sim_minWeight sim) (sim_maxWeight sim) ?ns (meshes ?u)
           (links (sim_graph sim)) (lines ?u)\<rparr>)\<lparr>simulation := Some (?sim\<lparr>sim_graph := ?g\<lparr>links := links (sim_graph sim)\<rparr>\<rparr>)\<rparr>)"
    unfolding tickHandler_def
    by (simp add: Let_def ul)
  also have "(?u\<lparr>lines := syncLines rnd (sim_minWeight sim) (sim_maxWeight sim) ?ns (meshes ?u)
           (links (sim_graph sim)) (lines ?u)\<rparr>)\<lparr>simulation := Some (?sim\<lparr>sim_graph := ?g\<lparr>links := links (sim_graph sim)\<rparr>\<rparr>)\<rparr>
       = ticked rnd pos sim s"
    by (intro state.equality) (simp_all add: ticked_def Let_def updateNodes_eq)
  finally show ?thesis by (simp add: tick_def st assms(1,3))
qed

lemma ticked_fields [simp]:
  "loadedFont (ticked rnd pos sim s) = loadedFont s"
  "currentGraph (ticked rnd pos sim s) = currentGraph s"
  "children (ticked rnd pos sim s) = children s"
  "nextMesh (ticked rnd pos sim s) = nextMesh s"
  "nextLine (ticked rnd pos sim s) = nextLine s"
  "highlightedNode (ticked rnd pos sim s) = highlightedNode s"
  "tooltip (ticked rnd pos sim s) = tooltip s"
  "console (ticked rnd pos sim s) = console s"
  "simulation (ticked rnd pos sim s) =
     Some (sim\<lparr>sim_graph := (sim_graph sim)\<lparr>nodes := moveNodes pos 0 (nodes (sim_graph sim))\<rparr>\<rparr>)"
  "meshes (ticked rnd pos sim s) = placeMeshes (moveNodes pos 0 (nodes (sim_graph sim))) (meshes s)"
  "lines (ticked rnd pos sim s) =
     syncLines rnd (sim_minWeight sim) (sim_maxWeight sim) (moveNodes pos 0 (nodes (sim_graph sim)))
       (placeMeshes (moveNodes pos 0 (nodes (sim_graph sim))) (meshes s)) (links (sim_graph sim)) (lines s)"
  by (simp_all add: ticked_def Let_def)

lemma drawn_syncLines:
  "drawn L ls \<Longrightarrow> drawn (syncLines rnd mn mx ns M ls' L) ls"
  by (auto simp: drawn_def intro: syncLines_twoPoints)

subsection \<open>The invariants hold in every state of the page\<close>

lemma simOK_initial: "simOK initialState"
  by (simp add: simOK_def initialState_def)

lemma allocOK_initial: "allocOK initialState"
  by (simp add: allocOK_def initialState_def)

lemma linesOK_initial: "linesOK initialState"
  by (simp add: linesOK_def initialState_def)

lemma inv_fontLoaded:
  "simOK s \<Longrightarrow> simOK (fontLoaded f s)"
  "allocOK s \<Longrightarrow> allocOK (fontLoaded f s)"
  "linesOK s \<Longrightarrow> linesOK (fontLoaded f s)"
  by (simp_all add: simOK_def allocOK_def linesOK_def fontLoaded_def)

lemma inv_console:
  "simOK s \<Longrightarrow> simOK (s\<lparr>console := x\<rparr>)"
  "allocOK s \<Longrightarrow> allocOK (s\<lparr>console := x\<rparr>)"
  "linesOK s \<Longrightarrow> linesOK (s\<lparr>console := x\<rparr>)"
  by (simp_all add: simOK_def allocOK_def linesOK_def)

lemma render_cases:
  obtains (nofont) "loadedFont s = None"
      "renderGraph3D rnd rand built graph s =
         (None, s\<lparr>console := console s @ [Warn ''Font not loaded yet, skipping render'']\<rparr>)"
  | (nograph) f where "loadedFont s = Some f" "graph = None"
      "renderGraph3D rnd rand built graph s = (Some TypeError, s\<lparr>currentGraph := None, children := []\<rparr>)"
  | (drawn) f g s' where "loadedFont s = Some f" "graph = Some g"
      "renderGraph3D rnd rand built graph s = (built, s')"
proof (cases "loadedFont s")
  case None
  then show ?thesis by (intro nofont) (simp_all add: renderGraph3D_def)
next
  case (Some f)
  show ?thesis
  proof (cases graph)
    case None
    with Some show ?thesis by (intro nograph) (simp_all add: renderGraph3D_def)
  next
    case g: (Some g)
    obtain e s' where r: "renderGraph3D rnd rand built (Some g) s = (e, s')"
      by (cases "renderGraph3D rnd rand built (Some g) s") auto
    from render_frame(1) [OF Some r] r g Some show ?thesis by (intro drawn) auto
  qed
qed

lemma simOK_render: "simOK s \<Longrightarrow> simOK (snd (renderGraph3D rnd rand built graph s))"
proof (cases rule: render_cases [of s rnd rand built graph])
  case nofont
  assume "simOK s"
  with nofont show ?thesis by (simp add: simOK_def)
next
  case (nograph f)
  assume "simOK s"
  with nograph show ?thesis by (simp add: simOK_def)
next
  case (drawn f g s')
  note r = drawn(3) [unfolded drawn(2)]
  show ?thesis
    unfolding simOK_def drawn(3) snd_conv
  proof (intro allI impI)
    fix sim assume "simulation s' = Some sim" "running sim"
    with render_frame(2) [OF drawn(1) r]
    have "sim_graph sim = renderedGraph rnd rand g s"
      by (simp add: renderedSim_running)
    with render_graphOK [OF drawn(1) r] show "graphOK (lines s') (sim_graph sim)" by simp
  qed
qed

lemma allocOK_render: "allocOK s \<Longrightarrow> allocOK (snd (renderGraph3D rnd rand built graph s))"
proof (cases rule: render_cases [of s rnd rand built graph])
  case nofont
  assume "allocOK s"
  with nofont show ?thesis by (simp add: allocOK_def)
next
  case (nograph f)
  then show ?thesis by (simp add: allocOK_def)
next
  case (drawn f g s')
  note fr = render_frame(3-5) [OF drawn(1) drawn(3) [unfolded drawn(2)]]
  have "allocOK s'" unfolding allocOK_def fr by auto
  then show ?thesis by (simp add: drawn(3))
qed

lemma linesOK_render:
  assumes "roundingOK rnd" "linesOK s"
  shows "linesOK (snd (renderGraph3D rnd rand built graph s))"
proof (cases rule: render_cases [of s rnd rand built graph])
  case nofont
  with assms(2) show ?thesis by (simp add: linesOK_def)
next
  case (nograph f)
  then show ?thesis by (simp add: linesOK_def)
next
  case (drawn f g s')
  note r = drawn(3) [unfolded drawn(2)]
  show ?thesis
    unfolding linesOK_def drawn(3) snd_conv
  proof (intro allI impI)
    fix r0 assume "LineChild r0 \<in> set (children s')"
    from render_line_children [OF drawn(1) r this]
    obtain k i j where k: "k < length (links g)"
      and l: "lines s' r0 = lineFor rnd (Math_min (map linkWeight (links g)))
            (Math_max (map linkWeight (links g))) (links g ! k) i j origin origin"
      by blast
    from k have "links g ! k \<in> set (links g)" by simp
    from colorFor_good [OF assms(1) this]
    show "\<exists>c. originalColor (lines s' r0) = Some c \<and> c \<noteq> highlightColor"
      by (simp add: l lineFor_def)
  qed
qed

lemma inv_submitDream:
  "simOK s \<Longrightarrow> simOK (submitDream rnd rand built res s)"
  "allocOK s \<Longrightarrow> allocOK (submitDream rnd rand built res s)"
  "roundingOK rnd \<Longrightarrow> linesOK s \<Longrightarrow> linesOK (submitDream rnd rand built res s)"
proof -
  have e: "submitDream rnd rand built res s =
      (case res of
         Json (Data graph) \<Rightarrow>
           (case fst (renderGraph3D rnd rand built graph s) of
              None \<Rightarrow> snd (renderGraph3D rnd rand built graph s)
            | Some err \<Rightarrow> (snd (renderGraph3D rnd rand built graph s))
                \<lparr>console := console (snd (renderGraph3D rnd rand built graph s)) @ [Error ''Fetch error:'' err]\<rparr>)
       | Json DataNull \<Rightarrow> s\<lparr>console := console s @ [Error ''Fetch error:'' TypeError]\<rparr>
       | FetchRejected \<Rightarrow> s\<lparr>console := console s @ [Error ''Fetch error:'' FetchError]\<rparr>
       | JsonRejected \<Rightarrow> s\<lparr>console := console s @ [Error ''Fetch error:'' SyntaxError]\<rparr>)"
    by (simp add: submitDream_def split: fetched.splits submitData.splits prod.splits option.splits)
  show "simOK s \<Longrightarrow> simOK (submitDream rnd rand built res s)"
    unfolding e by (auto split: fetched.splits submitData.splits option.splits intro: inv_console simOK_render)
  show "allocOK s \<Longrightarrow> allocOK (submitDream rnd rand built res s)"
    unfolding e by (auto split: fetched.splits submitData.splits option.splits intro: inv_console allocOK_render)
  show "roundingOK rnd \<Longrightarrow> linesOK s \<Longrightarrow> linesOK (submitDream rnd rand built res s)"
    unfolding e by (auto split: fetched.splits submitData.splits option.splits intro: inv_console linesOK_render)
qed

lemma inv_loadInitialGraph:
  "simOK s \<Longrightarrow> simOK (loadInitialGraph rnd rand built res s)"
  "allocOK s \<Longrightarrow> allocOK (loadInitialGraph rnd rand built res s)"
  "roundingOK rnd \<Longrightarrow> linesOK s \<Longrightarrow> linesOK (loadInitialGraph rnd rand built res s)"
proof -
  have e: "loadInitialGraph rnd rand built res s =
      (case res of
         Json graph \<Rightarrow>
           (case fst (renderGraph3D rnd rand built graph s) of
              None \<Rightarrow> snd (renderGraph3D rnd rand built graph s)
            | Some err \<Rightarrow> (snd (renderGraph3D rnd rand built graph s))
                \<lparr>console := console (snd (renderGraph3D rnd rand built graph s)) @ [Error ''Graph load error:'' err]\<rparr>)
       | FetchRejected \<Rightarrow> s\<lparr>console := console s @ [Error ''Graph load error:'' FetchError]\<rparr>
       | JsonRejected \<Rightarrow> s\<lparr>console := console s @ [Error ''Graph load error:'' SyntaxError]\<rparr>)"
    by (simp add: loadInitialGraph_def split: fetched.splits prod.splits option.splits)
  show "simOK s \<Longrightarrow> simOK (loadInitialGraph rnd rand built res s)"
    unfolding e by (auto split: fetched.splits option.splits intro: inv_console simOK_render)
  show "allocOK s \<Longrightarrow> allocOK (loadInitialGraph rnd rand built res s)"
    unfolding e by (auto split: fetched.splits option.splits intro: inv_console allocOK_render)
  show "roundingOK rnd \<Longrightarrow> linesOK s \<Longrightarrow> linesOK (loadInitialGraph rnd rand built res s)"
    unfolding e by (auto split: fetched.splits option.splits intro: inv_console linesOK_render)
qed

lemma inv_tick:
  assumes "simOK s"
  shows "simOK (snd (tick rnd pos s))"
    and "allocOK s \<Longrightarrow> allocOK (snd (tick rnd pos s))"
    and "linesOK s \<Longrightarrow> linesOK (snd (tick rnd pos s))"
proof -
  show "simOK (snd (tick rnd pos s))"
  proof (cases rule: tick_cases [of rnd pos s])
    case idle
    with assms show ?thesis by simp
  next
    case (runs sim)
    with assms have g: "graphOK (lines s) (sim_graph sim)" by (simp add: simOK_def)
    from graphOK_moveNodes [OF g, of pos 0] have "graphOK (lines s) ((sim_graph sim)\<lparr>nodes := moveNodes pos 0 (nodes (sim_graph sim))\<rparr>)" .
    then show ?thesis
      by (simp add: tick_Some [OF runs(1) g runs(2)] simOK_def graphOK_def drawn_syncLines)
  qed
  show "allocOK s \<Longrightarrow> allocOK (snd (tick rnd pos s))"
  proof (cases rule: tick_cases [of rnd pos s])
    case idle
    assume "allocOK s"
    with idle show ?thesis by simp
  next
    case (runs sim)
    assume a: "allocOK s"
    from assms runs have g: "graphOK (lines s) (sim_graph sim)" by (simp add: simOK_def)
    from a show ?thesis by (simp add: tick_Some [OF runs(1) g runs(2)] allocOK_def)
  qed
  show "linesOK s \<Longrightarrow> linesOK (snd (tick rnd pos s))"
  proof (cases rule: tick_cases [of rnd pos s])
    case idle
    assume "linesOK s"
    with idle show ?thesis by simp
  next
    case (runs sim)
    assume a: "linesOK s"
    from assms runs have g: "graphOK (lines s) (sim_graph sim)" by (simp add: simOK_def)
    from a show ?thesis by (simp add: tick_Some [OF runs(1) g runs(2)] linesOK_def)
  qed
qed

lemma mousemove_cases:
  obtains (none) "intersects = []"
  | (same) obj rest where "intersects = obj # rest" "highlightedNode s = Some obj"
  | (other) obj rest where "intersects = obj # rest" "highlightedNode s \<noteq> Some obj"
  by (cases intersects) auto

lemma hover_fields [simp]:
  "points (resetLine x) = points x"
  "originalColor (resetLine x) = originalColor x"
  "points (paintLine x) = points x"
  "originalColor (paintLine x) = originalColor x"
  by (simp_all add: resetLine_def paintLine_def)

lemma twoPoints_hover [simp]:
  "twoPoints (resetLine x) = twoPoints x"
  "twoPoints (paintLine x) = twoPoints x"
  by (simp_all add: twoPoints_def)

lemma inv_mousemove:
  "simOK s \<Longrightarrow> simOK (mousemove intersects s)"
  "allocOK s \<Longrightarrow> allocOK (mousemove intersects s)"
  "linesOK s \<Longrightarrow> linesOK (mousemove intersects s)"
proof -
  show "simOK s \<Longrightarrow> simOK (mousemove intersects s)"
    by (cases rule: mousemove_cases [where intersects = intersects and s = s])
      (auto simp: mousemove_none mousemove_same mousemove_other simOK_def graphOK_def drawn_def
        hoverLines_def split: option.splits)
  show "allocOK s \<Longrightarrow> allocOK (mousemove intersects s)"
    by (cases rule: mousemove_cases [where intersects = intersects and s = s])
      (auto simp: mousemove_none mousemove_same mousemove_other allocOK_def)
  show "linesOK s \<Longrightarrow> linesOK (mousemove intersects s)"
    by (cases rule: mousemove_cases [where intersects = intersects and s = s])
      (auto simp: mousemove_none mousemove_same mousemove_other linesOK_def hoverLines_def)
qed

lemma reachable_inv:
  assumes "reachable rnd s"
  shows "simOK s \<and> allocOK s"
  using assms
proof (induction rule: reachable.induct)
  case reach_init
  show ?case by (simp add: simOK_initial allocOK_initial)
next
  case (reach_font s f)
  then show ?case by (simp add: inv_fontLoaded)
next
  case (reach_submit s rand built res)
  then show ?case by (simp add: inv_submitDream)
next
  case (reach_load s rand built res')
  then show ?case by (simp add: inv_loadInitialGraph)
next
  case (reach_tick s pos)
  then show ?case by (simp add: inv_tick)
next
  case (reach_mouse s intersects)
  then show ?case by (simp add: inv_mousemove)
qed

lemma reachable_linesOK:
  assumes "roundingOK rnd" "reachable rnd s"
  shows "linesOK s"
  using assms(2)
proof (induction rule: reachable.induct)
  case reach_init
  show ?case by (rule linesOK_initial)
next
  case (reach_font s f)
  then show ?case by (simp add: inv_fontLoaded)
next
  case (reach_submit s rand built res)
  then show ?case by (simp add: inv_submitDream assms(1))
next
  case (reach_load s rand built res')
  then show ?case by (simp add: inv_loadInitialGraph assms(1))
next
  case (reach_tick s pos)
  then show ?case by (simp add: inv_tick reachable_inv)
next
  case (reach_mouse s intersects)
  then show ?case by (simp add: inv_mousemove)
qed

section \<open>Properties of the rendering\<close>

subsection \<open>Running the program on the examples\<close>

lemmas colour_run = getColorForWeight_def red_def blue_def normalized_def divisor_def green_def
  packRGB_def number_run

lemmas render_run = renderGraph3D_def fontLoaded_def initialState_def jsonLink_def jsonNode_def
  Let_def bindLink_def createLines.simps nodeMesh_def newLine_def pushLink_def textMesh_def
  startAt_def noDraw_def axisLength_def linkWeight_def orOne_def nullish_def stop_def
  loadInitialGraph_def origin_def fround3_def

lemmas tick_run = tick_def simulationStep_def tickHandler_def updateLinks.simps updateLine_def
  updateNodes.simps moveNodes.simps

lemmas mouse_run = mousemove_def resetHighlights_def resetChild_def highlightLine_def
  originalOrGray_def nodeColor_def highlightColor_def neutralGray_def nodeMeshes_def

lemmas example_run = exampleGraph_def exampleLinks_def exampleState_def loadedPage_def

lemmas resolved_run = resolvedGraph_def resolvedState_def loadedPage_def

lemmas ticked_run = hoveredState_def tickedState_def drift_def

lemma loadedPage_font: "loadedFont loadedPage = Some ''helvetiker''"
  by (simp add: loadedPage_def fontLoaded_def)

lemma resolvedState_fields:
  "children resolvedState = [MeshChild 0, MeshChild 1, MeshChild 2, LineChild 0, LineChild 1]"
  "nextMesh resolvedState = 3" "nextLine resolvedState = 2"
  "loadedFont resolvedState = Some ''helvetiker''"
  "highlightedNode resolvedState = None"
  "console resolvedState = []"
  by (simp_all add: resolved_run render_run colour_run)

lemma reachable_loadedPage: "reachable rnd loadedPage"
  unfolding loadedPage_def by (intro reachable.intros)

lemma reachable_resolvedState: "reachable exact resolvedState"
  unfolding resolvedState_def by (intro reach_load reachable_loadedPage)

lemma reachable_hoveredState: "reachable exact hoveredState"
  unfolding hoveredState_def
proof (rule reach_mouse [OF reachable_resolvedState])
  show "set [1] \<subseteq> nodeMeshes resolvedState"
    by (simp add: nodeMeshes_def resolvedState_fields)
qed

lemma reachable_tickedState: "reachable exact tickedState"
  unfolding tickedState_def by (rule reach_tick [OF reachable_hoveredState])

subsection \<open>The weight of a link\<close>

text \<open>
  C3, as the code has it. The weight used for the colour of a link and stored in the
  \<open>userData\<close> of its line is the \<open>weight\<close> field when it is present, otherwise the \<open>value\<close>
  field; it is 1 when neither field is present and also when the field so chosen is 0
  (\<open>|| 1\<close> takes 0, and NaN, for absent): a present weight of 0 counts as 1, and the \<open>value\<close>
  field is then not consulted.
\<close>

theorem link_weight_used:
  assumes "loadedFont s = Some f"
    and "renderGraph3D rnd rand built (Some g) s = (e, s')"
    and "k < length (links g)"
    and "findNode (nodes g) (source (links g ! k)) = Some i"
    and "findNode (nodes g) (target (links g ! k)) = Some j"
  shows "linkWeight (links g ! k) =
       (case weight (links g ! k) of
          Some w \<Rightarrow> if w = Fin 0 \<or> w = NaN then Fin 1 else w
        | None \<Rightarrow>
            (case value (links g ! k) of
               Some v \<Rightarrow> if v = Fin 0 \<or> v = NaN then Fin 1 else v
             | None \<Rightarrow> Fin 1))
     \<and> (\<exists>g' r. currentGraph s' = Some g'
          \<and> line (links g' ! k) = Some r
          \<and> ud_weight (lines s' r) = linkWeight (links g ! k)
          \<and> line_color (lines s' r) =
               getColorForWeight rnd (linkWeight (links g ! k)) (Math_min (map linkWeight (links g)))
                 (Math_max (map linkWeight (links g)))
          \<and> originalColor (lines s' r) = Some (line_color (lines s' r)))"
proof -
  note fr = render_frame [OF assms(1,2)]
  from render_line_of_link [OF assms]
  obtain r where "line (renderedLinks rnd rand g s ! k) = Some r"
    "lines s' r = lineFor rnd (Math_min (map linkWeight (links g)))
       (Math_max (map linkWeight (links g))) (links g ! k) i j origin origin"
    by blast
  then show ?thesis
    using linkWeight_cases [of "links g ! k"] by (simp add: fr(6) lineFor_def)
qed

theorem link_weight_used_witness:
  "loadedFont loadedPage = Some ''helvetiker''
   \<and> renderGraph3D exact noDraw (Some ForceError) (Some exampleGraph) loadedPage =
        (Some ForceError, exampleState)
   \<and> 1 < length (links exampleGraph)
   \<and> findNode (nodes exampleGraph) (source (links exampleGraph ! 1)) = Some 1
   \<and> findNode (nodes exampleGraph) (target (links exampleGraph ! 1)) = Some 2
   \<and> linkWeight (links exampleGraph ! 1) = Fin 5
   \<and> line (links (the (currentGraph exampleState)) ! 1) = Some 1
   \<and> ud_weight (lines exampleState 1) = Fin 5
   \<and> line_color (lines exampleState 1) = 16711680
   \<and> originalColor (lines exampleState 1) = Some 16711680"
proof -
  note h1 = loadedPage_font
  have h2: "renderGraph3D exact noDraw (Some ForceError) (Some exampleGraph) loadedPage =
      (Some ForceError, exampleState)"
    using render_frame(1) [OF h1, of exact noDraw "Some ForceError" exampleGraph]
    by (cases "renderGraph3D exact noDraw (Some ForceError) (Some exampleGraph) loadedPage")
      (simp add: exampleState_def)
  have h3: "1 < length (links exampleGraph)" by (simp add: example_run)
  have h4: "findNode (nodes exampleGraph) (source (links exampleGraph ! 1)) = Some 1"
    and h5: "findNode (nodes exampleGraph) (target (links exampleGraph ! 1)) = Some 2"
    by (simp_all add: example_run render_run)
  have v: "linkWeight (links exampleGraph ! 1) = Fin 5
      \<and> line (links (the (currentGraph exampleState)) ! 1) = Some 1
      \<and> ud_weight (lines exampleState 1) = Fin 5
      \<and> line_color (lines exampleState 1) = 16711680
      \<and> originalColor (lines exampleState 1) = Some 16711680"
    by (simp add: example_run render_run colour_run)
  from link_weight_used [OF h1 h2 h3 h4 h5] h1 h2 h3 h4 h5 v show ?thesis by simp
qed

text \<open>
  C3 as stated fails: a link with a present weight of 0 (and a value of 7) is given the
  weight 1, where the statement says 0.
\<close>

theorem linkWeight_zero_counterexample:
  "specWeight (jsonLink ''a'' ''b'' (Some (Fin 0)) (Some (Fin 7))) = Fin 0
   \<and> linkWeight (jsonLink ''a'' ''b'' (Some (Fin 0)) (Some (Fin 7))) = Fin 1"
  by (simp add: linkWeight_def specWeight_def orOne_def nullish_def jsonLink_def falsy_def)

subsection \<open>Links without a node\<close>

lemma incident_owned:
  "r \<in> set (incident ns m ls) \<Longrightarrow> \<exists>l \<in> set ls. resolvedL l \<and> line l = Some r"
proof (induction ls)
  case Nil
  then show ?case by simp
next
  case (Cons l ls)
  then show ?case
    by (auto simp: resolvedL_def split: option.splits if_splits)
qed

lemma render_new_mesh:
  assumes "loadedFont s = Some f" "renderGraph3D rnd rand built (Some g) s = (e, s')" "i < length (nodes g)"
  shows "position (meshes s' (nextMesh s + i)) = origin"
    and "mesh_color (meshes s' (nextMesh s + i)) = nodeColor"
    and "label (meshes s' (nextMesh s + i)) = node_id (nodes g ! i)"
    and "label_font (meshes s' (nextMesh s + i)) = f"
    and "ud_id (meshes s' (nextMesh s + i)) = node_id (nodes g ! i)"
    and "ud_links (meshes s' (nextMesh s + i)) =
           incident (renderedNodes rnd rand g s) (nextMesh s + i) (renderedLinks rnd rand g s)"
  using assms(3) render_mesh [OF assms(1,2), of "nextMesh s + i"]
  by (simp_all add: addMeshes_apply textMesh_def)

text \<open>
  C4. When the font is loaded and a link of the snapshot has a source id or a target id
  that is the id of no node, \<open>renderGraph3D\<close> does not bind both ends of that link and
  attaches no line to it (its \<open>line\<close> field is what it was), whether the force library then
  throws or not. It creates as many lines as there are links with both endpoints found; the
  lines of the group are these lines, each the line of one such link, and every entry of
  the list \<open>userData.links\<close> of a node mesh of the group is the line of a link with both
  endpoints found.
\<close>

theorem unresolved_link_not_drawn:
  assumes "loadedFont s = Some f"
    and "k < length (links g)"
    and "findNode (nodes g) (source (links g ! k)) = None \<or> findNode (nodes g) (target (links g ! k)) = None"
    and "renderGraph3D rnd rand built (Some g) s = (e, s')"
  shows "e = built
       \<and> nextLine s' = nextLine s + length (filter (resolves (nodes g)) (links g))
       \<and> filter (\<lambda>c. \<not> isNode c) (children s') = map LineChild [nextLine s..<nextLine s']
       \<and> (\<exists>g'. currentGraph s' = Some g'
            \<and> \<not> resolvedL (links g' ! k)
            \<and> line (links g' ! k) = line (links g ! k)
            \<and> map line (filter resolvedL (links g')) = map Some [nextLine s..<nextLine s']
            \<and> (\<forall>m r. MeshChild m \<in> set (children s') \<longrightarrow> r \<in> set (ud_links (meshes s' m)) \<longrightarrow>
                  (\<exists>l \<in> set (links g'). resolvedL l \<and> line l = Some r)))"
proof -
  let ?ns = "renderedNodes rnd rand g s" and ?ls = "renderedLinks rnd rand g s"
  let ?bs = "map (bindLink ?ns) (links g)"
  note fr = render_frame [OF assms(1,4)]
  have n: "nextLine s' = nextLine s + length (filter (resolves (nodes g)) (links g))" by (rule fr(5))
  have c: "filter (\<lambda>c. \<not> isNode c) (children s') = map LineChild [nextLine s..<nextLine s']"
    unfolding fr(3) n by (simp add: isNode_def filter_map comp_def)
  have b: "\<not> resolvedL (?bs ! k)" using assms(2,3) by (auto simp: resolves_def)
  then have k: "?ls ! k = ?bs ! k"
    unfolding renderedLinks_def using assms(2) by (intro attachLines_unresolved) simp_all
  then have u: "line (?ls ! k) = line (links g ! k)" using assms(2) by simp
  from b k have nr: "\<not> resolvedL (?ls ! k)" by simp
  have o: "map line (filter resolvedL ?ls) = map Some [nextLine s..<nextLine s']"
    unfolding n by (simp add: renderedLinks_def filter_attachLines)
  have i: "\<exists>l \<in> set ?ls. resolvedL l \<and> line l = Some r"
    if "MeshChild m \<in> set (children s')" "r \<in> set (ud_links (meshes s' m))" for m r
  proof -
    from that(1) obtain i where i: "i < length (nodes g)" "m = nextMesh s + i"
      unfolding fr(3) by (auto simp: nat_le_iff_add)
    from that(2) have "r \<in> set (incident ?ns m ?ls)"
      by (simp add: i render_new_mesh(6) [OF assms(1,4) i(1)])
    then show ?thesis by (rule incident_owned)
  qed
  show ?thesis using fr(1,6) n c u nr o i by simp
qed

theorem unresolved_link_not_drawn_witness:
  "loadedFont loadedPage = Some ''helvetiker''
   \<and> 2 < length (links exampleGraph)
   \<and> findNode (nodes exampleGraph) (target (links exampleGraph ! 2)) = None
   \<and> renderGraph3D exact noDraw (Some ForceError) (Some exampleGraph) loadedPage =
        (Some ForceError, exampleState)
   \<and> nextLine exampleState = 2
   \<and> children exampleState = [MeshChild 0, MeshChild 1, MeshChild 2, LineChild 0, LineChild 1]
   \<and> map (\<lambda>m. ud_links (meshes exampleState m)) [0, 1, 2] = [[0], [0, 1], [1]]
   \<and> map line (links (the (currentGraph exampleState))) = [Some 0, Some 1, None]"
proof -
  note h1 = loadedPage_font
  have h2: "2 < length (links exampleGraph)" by (simp add: example_run)
  have h3: "findNode (nodes exampleGraph) (source (links exampleGraph ! 2)) = None
      \<or> findNode (nodes exampleGraph) (target (links exampleGraph ! 2)) = None"
    by (simp add: example_run render_run)
  have h4: "renderGraph3D exact noDraw (Some ForceError) (Some exampleGraph) loadedPage =
      (fst (renderGraph3D exact noDraw (Some ForceError) (Some exampleGraph) loadedPage), exampleState)"
    by (simp add: exampleState_def)
  have v: "nextLine exampleState = 2
      \<and> children exampleState = [MeshChild 0, MeshChild 1, MeshChild 2, LineChild 0, LineChild 1]
      \<and> map (\<lambda>m. ud_links (meshes exampleState m)) [0, 1, 2] = [[0], [0, 1], [1]]
      \<and> map line (links (the (currentGraph exampleState))) = [Some 0, Some 1, None]
      \<and> findNode (nodes exampleGraph) (target (links exampleGraph ! 2)) = None"
    by (simp add: example_run render_run colour_run)
  from unresolved_link_not_drawn [OF h1 h2 h3 h4] h1 h2 v show ?thesis
    by (simp add: prod_eq_iff exampleState_def)
qed

subsection \<open>A full replacement\<close>

text \<open>
  C5. When the font is loaded, \<open>renderGraph3D\<close> gets as far as the simulation and leaves in
  the group one mesh for each node of the snapshot, in order and labelled with the id of
  its node, followed by one line for each link with both endpoints found. All these
  children are different objects and none of them was a child of the group before the
  call. The nodes and the links of \<open>currentGraph\<close> are bound to these meshes and lines. The
  call ends with what building the simulation ends with: when that throws, the simulation
  before is stopped and no other runs; otherwise the new one runs on this graph.
\<close>

theorem render_replaces_scene:
  assumes "reachable rnd s"
    and "loadedFont s = Some f"
    and "renderGraph3D rnd rand built (Some g) s = (e, s')"
  shows "e = built
       \<and> children s' = map MeshChild [nextMesh s..<nextMesh s + length (nodes g)]
           @ map LineChild [nextLine s..<nextLine s + length (filter (resolves (nodes g)) (links g))]
       \<and> distinct (children s')
       \<and> set (children s') \<inter> set (children s) = {}
       \<and> map (\<lambda>m. label (meshes s' m)) [nextMesh s..<nextMesh s + length (nodes g)] = map node_id (nodes g)
       \<and> (\<exists>g'. currentGraph s' = Some g'
            \<and> map node_id (nodes g') = map node_id (nodes g)
            \<and> map mesh (nodes g') = map Some [nextMesh s..<nextMesh s + length (nodes g)]
            \<and> map line (filter resolvedL (links g')) =
                 map Some [nextLine s..<nextLine s + length (filter (resolves (nodes g)) (links g))]
            \<and> simulation s' =
                 (case built of
                    None \<Rightarrow>
                      Some \<lparr>sim_graph = g', sim_minWeight = Math_min (map linkWeight (links g)),
                            sim_maxWeight = Math_max (map linkWeight (links g)), running = True\<rparr>
                  | Some err \<Rightarrow> map_option stop (simulation s)))"
proof -
  note fr = render_frame [OF assms(2,3)]
  let ?n = "length (nodes g)" and ?c = "length (filter (resolves (nodes g)) (links g))"
  have d: "distinct (children s')"
    unfolding fr(3) by (auto simp: distinct_map inj_on_def)
  from reachable_inv [OF assms(1)] have a: "allocOK s" by simp
  have i: "set (children s') \<inter> set (children s) = {}"
  proof (rule ccontr)
    assume "set (children s') \<inter> set (children s) \<noteq> {}"
    then obtain c where c: "c \<in> set (children s')" "c \<in> set (children s)" by auto
    show False
    proof (cases c)
      case (MeshChild m)
      with c(2) a have "m < nextMesh s" by (simp add: allocOK_def)
      moreover from c(1) MeshChild have "nextMesh s \<le> m" unfolding fr(3) by auto
      ultimately show False by simp
    next
      case (LineChild r)
      with c(2) a have "r < nextLine s" by (simp add: allocOK_def)
      moreover from c(1) LineChild have "nextLine s \<le> r" unfolding fr(3) by auto
      ultimately show False by simp
    qed
  qed
  have l: "map (\<lambda>m. label (meshes s' m)) [nextMesh s..<nextMesh s + ?n] = map node_id (nodes g)"
  proof (rule nth_equalityI)
    show "length (map (\<lambda>m. label (meshes s' m)) [nextMesh s..<nextMesh s + ?n]) = length (map node_id (nodes g))"
      by simp
  next
    fix i assume "i < length (map (\<lambda>m. label (meshes s' m)) [nextMesh s..<nextMesh s + ?n])"
    then have i: "i < ?n" by simp
    then show "map (\<lambda>m. label (meshes s' m)) [nextMesh s..<nextMesh s + ?n] ! i = map node_id (nodes g) ! i"
      by (simp add: render_new_mesh(3) [OF assms(2,3) i])
  qed
  have n: "map node_id (renderedNodes rnd rand g s) = map node_id (nodes g)"
    "map mesh (renderedNodes rnd rand g s) = map Some [nextMesh s..<nextMesh s + ?n]"
    by (simp_all add: renderedNodes_def id_placeNodes mesh_placeNodes)
  have o: "map line (filter resolvedL (renderedLinks rnd rand g s)) = map Some [nextLine s..<nextLine s + ?c]"
    by (simp add: renderedLinks_def filter_attachLines)
  have m: "simulation s' =
      (case built of
         None \<Rightarrow>
           Some \<lparr>sim_graph = renderedGraph rnd rand g s,
                 sim_minWeight = Math_min (map linkWeight (links g)),
                 sim_maxWeight = Math_max (map linkWeight (links g)), running = True\<rparr>
       | Some err \<Rightarrow> map_option stop (simulation s))"
    by (simp add: fr(2) renderedSim_def)
  show ?thesis using fr(1,3,6) d i l n o m by simp
qed

theorem render_replaces_scene_witness:
  "reachable exact resolvedState
   \<and> loadedFont resolvedState = Some ''helvetiker''
   \<and> fst (renderGraph3D exact noDraw (Some ForceError) (Some exampleGraph) resolvedState) = Some ForceError
   \<and> children resolvedState = [MeshChild 0, MeshChild 1, MeshChild 2, LineChild 0, LineChild 1]
   \<and> children (snd (renderGraph3D exact noDraw (Some ForceError) (Some exampleGraph) resolvedState)) =
        [MeshChild 3, MeshChild 4, MeshChild 5, LineChild 2, LineChild 3]
   \<and> map (\<lambda>m. label (meshes (snd (renderGraph3D exact noDraw (Some ForceError) (Some exampleGraph)
        resolvedState)) m)) [3, 4, 5] = [''a'', ''b'', ''c'']
   \<and> map_option running (simulation resolvedState) = Some True
   \<and> map_option running (simulation (snd (renderGraph3D exact noDraw (Some ForceError)
        (Some exampleGraph) resolvedState))) = Some False"
proof -
  let ?r = "renderGraph3D exact noDraw (Some ForceError) (Some exampleGraph) resolvedState"
  have h2: "loadedFont resolvedState = Some ''helvetiker''" by (rule resolvedState_fields)
  have h3: "?r = (fst ?r, snd ?r)" by simp
  have v: "children (snd ?r) = [MeshChild 3, MeshChild 4, MeshChild 5, LineChild 2, LineChild 3]
      \<and> map (\<lambda>m. label (meshes (snd ?r) m)) [3, 4, 5] = [''a'', ''b'', ''c'']
      \<and> map_option running (simulation resolvedState) = Some True
      \<and> map_option running (simulation (snd ?r)) = Some False"
    by (simp add: example_run resolved_run render_run colour_run)
  from render_replaces_scene [OF reachable_resolvedState h2 h3]
  have e: "fst ?r = Some ForceError" by (rule conjunct1)
  from e reachable_resolvedState h2 v show ?thesis by (simp add: resolvedState_fields)
qed

subsection \<open>No font, no render\<close>

text \<open>
  C6. When the font has not loaded, \<open>renderGraph3D\<close> returns without an exception and
  changes nothing but the console, which gets the warning: the group, \<open>currentGraph\<close>,
  the simulation with its nodes and links, the meshes and the lines are what they were.
\<close>

theorem render_without_font:
  assumes "loadedFont s = None"
  shows "renderGraph3D rnd rand built graph s =
       (None, s\<lparr>console := console s @ [Warn ''Font not loaded yet, skipping render'']\<rparr>)
     \<and> children (snd (renderGraph3D rnd rand built graph s)) = children s
     \<and> currentGraph (snd (renderGraph3D rnd rand built graph s)) = currentGraph s
     \<and> simulation (snd (renderGraph3D rnd rand built graph s)) = simulation s
     \<and> meshes (snd (renderGraph3D rnd rand built graph s)) = meshes s
     \<and> lines (snd (renderGraph3D rnd rand built graph s)) = lines s
     \<and> nextMesh (snd (renderGraph3D rnd rand built graph s)) = nextMesh s
     \<and> nextLine (snd (renderGraph3D rnd rand built graph s)) = nextLine s
     \<and> highlightedNode (snd (renderGraph3D rnd rand built graph s)) = highlightedNode s
     \<and> tooltip (snd (renderGraph3D rnd rand built graph s)) = tooltip s"
  using assms by (simp add: renderGraph3D_def)

theorem render_without_font_witness:
  "loadedFont initialState = None
   \<and> renderGraph3D exact noDraw None (Some exampleGraph) initialState =
       (None, initialState\<lparr>console := [Warn ''Font not loaded yet, skipping render'']\<rparr>)
   \<and> children (snd (renderGraph3D exact noDraw None (Some exampleGraph) initialState)) = []
   \<and> currentGraph (snd (renderGraph3D exact noDraw None (Some exampleGraph) initialState)) =
        Some \<lparr>nodes = [], links = []\<rparr>
   \<and> simulation (snd (renderGraph3D exact noDraw None (Some exampleGraph) initialState)) = None"
proof -
  have h: "loadedFont initialState = None" by (simp add: initialState_def)
  from render_without_font [OF h, of exact noDraw None "Some exampleGraph"] h
  show ?thesis by (simp add: initialState_def)
qed

subsection \<open>Lines follow their nodes\<close>

text \<open>
  C7, as the code has it. In every state of the page, a tick of the simulation that runs
  ends without an exception, and after it every link of the graph of the simulation whose
  two endpoints were found has a line whose position attribute is the two positions of the
  meshes of its source and its target, rounded to single precision as the attribute keeps
  them; the positions of the meshes are the coordinates that the simulation gave to the
  two nodes on this tick.
\<close>

theorem tick_synchronises_lines:
  assumes "reachable rnd s"
    and "tick rnd pos s = (e, s')"
    and "simulation s' = Some sim" and "running sim"
    and "l \<in> set (links (sim_graph sim))"
    and "sourceObj l = Some i" and "targetObj l = Some j"
  shows "e = None
       \<and> (\<exists>mi mj r. i < length (nodes (sim_graph sim)) \<and> j < length (nodes (sim_graph sim))
            \<and> mesh (nodes (sim_graph sim) ! i) = Some mi
            \<and> mesh (nodes (sim_graph sim) ! j) = Some mj
            \<and> line l = Some r
            \<and> points (lines s' r) =
                 Some [fround3 (position (meshes s' mi)), fround3 (position (meshes s' mj))]
            \<and> position (meshes s' mi) = pos i \<and> position (meshes s' mj) = pos j
            \<and> (node_x (nodes (sim_graph sim) ! i), node_y (nodes (sim_graph sim) ! i),
                 node_z (nodes (sim_graph sim) ! i)) = pos i
            \<and> (node_x (nodes (sim_graph sim) ! j), node_y (nodes (sim_graph sim) ! j),
                 node_z (nodes (sim_graph sim) ! j)) = pos j)"
proof -
  from reachable_inv [OF assms(1)] have ok: "simOK s" by simp
  show ?thesis
  proof (cases rule: tick_cases [of rnd pos s])
    case idle
    with assms(2-4) show ?thesis by simp
  next
    case (runs sim0)
    with ok have g0: "graphOK (lines s) (sim_graph sim0)" by (simp add: simOK_def)
    let ?ns = "moveNodes pos 0 (nodes (sim_graph sim0))"
    let ?g = "(sim_graph sim0)\<lparr>nodes := ?ns\<rparr>"
    let ?M = "placeMeshes ?ns (meshes s)"
    from assms(2) have e: "e = None" and s': "s' = ticked rnd pos sim0 s"
      by (simp_all add: tick_Some [OF runs(1) g0 runs(2)])
    from assms(3) have sim: "sim = sim0\<lparr>sim_graph := ?g\<rparr>" by (simp add: s')
    have g: "graphOK (lines s) ?g" using g0 by (rule graphOK_moveNodes)
    have l: "l \<in> set (links ?g)" using assms(5) by (simp add: sim)
    from graphOK_nodeMesh [OF g l assms(6,7)]
    obtain mi mj where m: "nodeMesh ?ns i = Some mi" "nodeMesh ?ns j = Some mj"
      "i < length ?ns" "j < length ?ns" "mesh (?ns ! i) = Some mi" "mesh (?ns ! j) = Some mj"
      by auto
    from g l assms(6,7) obtain r where r: "line l = Some r"
      by (auto simp: graphOK_def drawn_def resolvedL_def)
    have d: "distinct (map line (filter resolvedL (links (sim_graph sim0))))"
      using g0 by (simp add: graphOK_def)
    have dm: "distinct (map mesh ?ns)" using g by (simp add: graphOK_def)
    have l0: "l \<in> set (links (sim_graph sim0))" using l by simp
    have "lines s' r = (lines s r)\<lparr>points := Some [fround3 (position (?M mi)), fround3 (position (?M mj))],
        line_color := getColorForWeight rnd (linkWeight l) (sim_minWeight sim0) (sim_maxWeight sim0),
        ud_weight := linkWeight l\<rparr>"
      unfolding s' ticked_fields
      using d l0 assms(6,7) r m(1,2) by (rule syncLines_own)
    then have p: "points (lines s' r) =
        Some [fround3 (position (meshes s' mi)), fround3 (position (meshes s' mj))]"
      by (simp add: s')
    have ci: "position (meshes s' mi) = (node_x (?ns ! i), node_y (?ns ! i), node_z (?ns ! i))"
      unfolding s' ticked_fields using dm m(3,5) by (rule placeMeshes_position)
    have cj: "position (meshes s' mj) = (node_x (?ns ! j), node_y (?ns ! j), node_z (?ns ! j))"
      unfolding s' ticked_fields using dm m(4,6) by (rule placeMeshes_position)
    have pi: "(node_x (?ns ! i), node_y (?ns ! i), node_z (?ns ! i)) = pos i"
      using nth_moveNodes [of i "nodes (sim_graph sim0)" pos 0] m(3) by simp
    have pj: "(node_x (?ns ! j), node_y (?ns ! j), node_z (?ns ! j)) = pos j"
      using nth_moveNodes [of j "nodes (sim_graph sim0)" pos 0] m(4) by simp
    have n: "nodes (sim_graph sim) = ?ns" by (simp add: sim)
    show ?thesis
      unfolding n using e m(3-6) r p ci cj pi pj by simp
  qed
qed

theorem tick_synchronises_lines_witness:
  "reachable exact hoveredState
   \<and> tick exact drift hoveredState = (None, tickedState)
   \<and> map_option running (simulation tickedState) = Some True
   \<and> sourceObj (links (sim_graph (the (simulation tickedState))) ! 1) = Some 1
   \<and> targetObj (links (sim_graph (the (simulation tickedState))) ! 1) = Some 2
   \<and> line (links (sim_graph (the (simulation tickedState))) ! 1) = Some 1
   \<and> position (meshes tickedState 1) = (Fin 33554434, Fin 2, Fin 3)
   \<and> position (meshes tickedState 2) = (Fin 33554435, Fin 2, Fin 3)
   \<and> points (lines tickedState 1) =
        Some [(Fin 33554432, Fin 2, Fin 3), (Fin 33554436, Fin 2, Fin 3)]"
proof -
  let ?sim = "the (simulation tickedState)"
  let ?l = "links (sim_graph ?sim) ! 1"
  have h2: "tick exact drift hoveredState = (fst (tick exact drift hoveredState), tickedState)"
    by (simp add: tickedState_def)
  have h3: "simulation tickedState = Some ?sim"
    by (simp add: resolved_run ticked_run render_run colour_run tick_run mouse_run)
  have h4: "?l \<in> set (links (sim_graph ?sim))"
    by (simp add: resolved_run ticked_run render_run colour_run tick_run mouse_run)
  have h5: "sourceObj ?l = Some 1" and h6: "targetObj ?l = Some 2" and hr: "running ?sim"
    by (simp_all add: resolved_run ticked_run render_run colour_run tick_run mouse_run)
  have v: "line ?l = Some 1
      \<and> position (meshes tickedState 1) = (Fin 33554434, Fin 2, Fin 3)
      \<and> position (meshes tickedState 2) = (Fin 33554435, Fin 2, Fin 3)
      \<and> points (lines tickedState 1) =
           Some [(Fin 33554432, Fin 2, Fin 3), (Fin 33554436, Fin 2, Fin 3)]"
    by (simp add: resolved_run ticked_run render_run colour_run tick_run mouse_run
        fround_33554434 fround_33554435)
  from tick_synchronises_lines [OF reachable_hoveredState h2 h3 hr h4 h5 h6]
  have e: "fst (tick exact drift hoveredState) = None" by (rule conjunct1)
  from e h2 reachable_hoveredState h3 hr h5 h6 v show ?thesis
    by (cases "simulation tickedState") (simp_all add: prod_eq_iff)
qed

text \<open>
  C7 as stated fails. On the page of the snapshot a-b, b-c a tick gives the node a the
  coordinate \<open>x = 33554433\<close>, which is \<open>2^25 + 1\<close>: the mesh of a is at that coordinate, and
  the first vertex of the line a-b is at \<open>33554432\<close>, the nearest number of single
  precision, so the vertex is not the position of the mesh.
\<close>

theorem tick_single_precision_counterexample:
  "reachable exact hoveredState
   \<and> tick exact drift hoveredState = (None, tickedState)
   \<and> map_option running (simulation tickedState) = Some True
   \<and> sourceObj (links (sim_graph (the (simulation tickedState))) ! 0) = Some 0
   \<and> mesh (nodes (sim_graph (the (simulation tickedState))) ! 0) = Some 0
   \<and> line (links (sim_graph (the (simulation tickedState))) ! 0) = Some 0
   \<and> position (meshes tickedState 0) = (Fin 33554433, Fin 2, Fin 3)
   \<and> points (lines tickedState 0) =
        Some [(Fin 33554432, Fin 2, Fin 3), (Fin 33554432, Fin 2, Fin 3)]
   \<and> hd (the (points (lines tickedState 0))) \<noteq> position (meshes tickedState 0)"
proof -
  have "tick exact drift hoveredState = (None, tickedState)
      \<and> map_option running (simulation tickedState) = Some True
      \<and> sourceObj (links (sim_graph (the (simulation tickedState))) ! 0) = Some 0
      \<and> mesh (nodes (sim_graph (the (simulation tickedState))) ! 0) = Some 0
      \<and> line (links (sim_graph (the (simulation tickedState))) ! 0) = Some 0
      \<and> position (meshes tickedState 0) = (Fin 33554433, Fin 2, Fin 3)
      \<and> points (lines tickedState 0) =
           Some [(Fin 33554432, Fin 2, Fin 3), (Fin 33554432, Fin 2, Fin 3)]"
    by (simp add: resolved_run ticked_run render_run colour_run tick_run mouse_run
        fround_33554433 fround_33554434)
  with reachable_hoveredState show ?thesis by simp
qed

subsection \<open>Highlights\<close>

lemma originalOrGray_resetLine [simp]: "originalOrGray (resetLine x) = originalOrGray x"
  by (simp add: originalOrGray_def)

lemma resetLine_fields [simp]:
  "line_color (resetLine x) = originalOrGray x"
  "opacity (resetLine x) = 9 / 10"
  by (simp_all add: resetLine_def)

lemma paintLine_fields [simp]: "line_color (paintLine x) = highlightColor"
  by (simp add: paintLine_def)

lemma resetMesh_fields [simp]:
  "mesh_color (resetMesh x) = nodeColor"
  "ud_links (resetMesh x) = ud_links x"
  "ud_id (resetMesh x) = ud_id x"
  "position (resetMesh x) = position x"
  by (simp_all add: resetMesh_def)

lemma linesOK_rest:
  assumes "linesOK s" "LineChild r \<in> set (children s)"
  shows "originalOrGray (lines s r) \<noteq> highlightColor \<and> originalColor (lines s r) \<noteq> None"
proof -
  from assms obtain c where c: "originalColor (lines s r) = Some c" "c \<noteq> highlightColor"
    by (auto simp: linesOK_def)
  then show ?thesis
    by (simp add: originalOrGray_def neutralGray_def highlightColor_def)
qed

text \<open>
  C8, as the code has it. When the pointer meets no mesh, the tooltip is hidden, no node is
  highlighted, every mesh of the group has the default colour and every line of the group
  has the opacity 0.9 and the colour recorded for it, or the neutral gray when the colour
  recorded is 0 (black counts as no colour); a colour is recorded for every line of the
  group. When it meets a mesh that is not the highlighted one, this mesh and the lines of
  its list get the highlight colour, and every other child of the group is as
  \<open>resetHighlights\<close> leaves it and is not of the highlight colour. When it meets the mesh that
  is already the highlighted one, only the tooltip is written: no colour is changed. The
  string assigned to the tooltip is the id of the mesh.
\<close>

theorem mousemove_highlights:
  assumes "roundingOK rnd" "reachable rnd s" "set intersects \<subseteq> nodeMeshes s"
  shows "(case intersects of
            [] \<Rightarrow>
              visibility (tooltip (mousemove intersects s)) = ''hidden''
              \<and> highlightedNode (mousemove intersects s) = None
              \<and> list_all (atRest (mousemove intersects s)) (children (mousemove intersects s))
              \<and> list_all (recorded (mousemove intersects s)) (children (mousemove intersects s))
          | obj # rest \<Rightarrow>
              tooltip (mousemove intersects s) = \<lparr>assignedHTML = ud_id (meshes s obj), visibility = ''visible''\<rparr>
              \<and> highlightedNode (mousemove intersects s) = Some obj
              \<and> children (mousemove intersects s) = children s
              \<and> (if highlightedNode s = Some obj
                  then meshes (mousemove intersects s) = meshes s \<and> lines (mousemove intersects s) = lines s
                  else mesh_color (meshes (mousemove intersects s) obj) = highlightColor
                     \<and> list_all (\<lambda>r. line_color (lines (mousemove intersects s) r) = highlightColor)
                          (ud_links (meshes s obj))
                     \<and> list_all (\<lambda>c. if hovered obj s c
                                      then childColor (mousemove intersects s) c = highlightColor
                                      else childColor (mousemove intersects s) c \<noteq> highlightColor
                                         \<and> atRest (mousemove intersects s) c
                                         \<and> recorded (mousemove intersects s) c)
                          (children s)))"
proof (cases rule: mousemove_cases [where intersects = intersects and s = s])
  case none
  have ok: "linesOK s" using assms(1,2) by (rule reachable_linesOK)
  have a: "atRest (mousemove [] s) c" if "c \<in> set (children s)" for c
    by (cases c) (use that in \<open>simp_all add: atRest_def mousemove_none\<close>)
  have r: "recorded (mousemove [] s) c" if "c \<in> set (children s)" for c
    by (cases c) (use that linesOK_rest [OF ok] in \<open>simp_all add: recorded_def mousemove_none\<close>)
  show ?thesis using a r by (simp add: none list_all_iff) (simp add: mousemove_none)
next
  case (same obj rest)
  then show ?thesis by (simp add: mousemove_same)
next
  case (other obj rest)
  have ok: "linesOK s" using assms(1,2) by (rule reachable_linesOK)
  let ?s' = "mousemove (obj # rest) s"
  note e = mousemove_other [OF other(2), of rest]
  have m: "mesh_color (meshes ?s' obj) = highlightColor"
    by (simp add: e hoverMeshes_def)
  have l: "line_color (lines ?s' r) = highlightColor" if "r \<in> set (ud_links (meshes s obj))" for r
    using that by (simp add: e hoverLines_def)
  have c: "if hovered obj s c then childColor ?s' c = highlightColor
      else childColor ?s' c \<noteq> highlightColor \<and> atRest ?s' c \<and> recorded ?s' c"
    if "c \<in> set (children s)" for c
  proof (cases c)
    case (MeshChild m0)
    with that show ?thesis
      by (auto simp: hovered_def childColor_def atRest_def recorded_def e hoverMeshes_def
          nodeColor_def highlightColor_def)
  next
    case (LineChild r0)
    with that linesOK_rest [OF ok, of r0] show ?thesis
      by (auto simp: hovered_def childColor_def atRest_def recorded_def e hoverLines_def)
  qed
  show ?thesis
    using other m l c by (simp add: list_all_iff) (simp add: e)
qed

theorem mousemove_highlights_witness:
  "roundingOK exact \<and> reachable exact resolvedState \<and> set [0] \<subseteq> nodeMeshes resolvedState
   \<and> highlightedNode resolvedState = None
   \<and> ud_links (meshes resolvedState 0) = [0]
   \<and> tooltip (mousemove [0] resolvedState) = \<lparr>assignedHTML = ''a'', visibility = ''visible''\<rparr>
   \<and> highlightedNode (mousemove [0] resolvedState) = Some 0
   \<and> map (childColor (mousemove [0] resolvedState)) (children resolvedState) =
        [highlightColor, nodeColor, nodeColor, highlightColor, 16711680]"
proof -
  have h3: "set [0] \<subseteq> nodeMeshes resolvedState"
    by (simp add: nodeMeshes_def resolvedState_fields)
  have v: "highlightedNode resolvedState = None
      \<and> ud_links (meshes resolvedState 0) = [0]
      \<and> tooltip (mousemove [0] resolvedState) = \<lparr>assignedHTML = ''a'', visibility = ''visible''\<rparr>
      \<and> map (childColor (mousemove [0] resolvedState)) (children resolvedState) =
        [highlightColor, nodeColor, nodeColor, highlightColor, 16711680]"
    by (simp add: resolved_run render_run colour_run mouse_run childColor_def)
  from mousemove_highlights [OF roundingOK_exact reachable_resolvedState h3]
    roundingOK_exact reachable_resolvedState h3 v
  show ?thesis by simp
qed

text \<open>
  A line whose recorded colour is black is not restored to it: on the page of the two links
  of weights \<open>-2^1023\<close> and \<open>2^1023\<close> the colour recorded for the second line is 0, and when
  the pointer meets no mesh the line is painted in the neutral gray.
\<close>

lemma black_line_reset_to_gray:
  "reachable exact hugeState
   \<and> children hugeState = [MeshChild 0, MeshChild 1, MeshChild 2, LineChild 0, LineChild 1]
   \<and> originalColor (lines hugeState 1) = Some 0
   \<and> line_color (lines hugeState 1) = 0
   \<and> line_color (lines (mousemove [] hugeState) 1) = 8947848"
proof -
  have r: "reachable exact hugeState"
    unfolding hugeState_def by (intro reach_load reachable_loadedPage)
  have m: "Math_min [Fin (- (2 ^ 1023)), Fin (2 ^ 1023)] = Fin (- (2 ^ 1023))"
    "Math_max [Fin (- (2 ^ 1023)), Fin (2 ^ 1023)] = Fin (2 ^ 1023)"
    by (simp_all add: Math_min_def Math_max_def jsMin_def jsMax_def)
  have "children hugeState = [MeshChild 0, MeshChild 1, MeshChild 2, LineChild 0, LineChild 1]
      \<and> originalColor (lines hugeState 1) = Some 0
      \<and> line_color (lines hugeState 1) = 0
      \<and> line_color (lines (mousemove [] hugeState) 1) = 8947848"
    by (simp add: hugeState_def hugeGraph_def hugeLinks_def loadedPage_def render_run mouse_run
        falsy_def m [simplified] huge_colours [simplified])
  with r show ?thesis by simp
qed

text \<open>
  C8 as stated fails. On the page of the snapshot a-b, b-c the pointer meets the mesh of
  node b, a tick recolours the lines by their weights, and the pointer meets the same mesh
  again: the mesh is still the highlighted one, so the handler sets no colour, and the
  first line of its list keeps its weight colour \<open>0x0000FF\<close>.
\<close>

theorem mousemove_same_node_counterexample:
  "reachable exact tickedState
   \<and> set [1] \<subseteq> nodeMeshes tickedState
   \<and> highlightedNode tickedState = Some 1
   \<and> ud_links (meshes tickedState 1) = [0, 1]
   \<and> LineChild 0 \<in> set (children tickedState)
   \<and> line_color (lines (mousemove [1] tickedState) 0) = 255
   \<and> line_color (lines (mousemove [1] tickedState) 0) \<noteq> highlightColor"
proof -
  have "set [1] \<subseteq> nodeMeshes tickedState
      \<and> highlightedNode tickedState = Some 1
      \<and> ud_links (meshes tickedState 1) = [0, 1]
      \<and> LineChild 0 \<in> set (children tickedState)
      \<and> line_color (lines (mousemove [1] tickedState) 0) = 255
      \<and> line_color (lines (mousemove [1] tickedState) 0) \<noteq> highlightColor"
    by (simp add: resolved_run ticked_run render_run colour_run tick_run mouse_run)
  with reachable_tickedState show ?thesis by simp
qed

subsection \<open>A request that fails\<close>




subsection \<open>The bounds of the colours\<close>

text \<open>
  C10. The two bounds that \<open>renderGraph3D\<close> passes to \<open>getColorForWeight\<close>, and that the
  tick handler of a simulation that has been built keeps, are the minimum and the maximum
  of the weights of all links of the snapshot, whether their endpoints are found or not:
  the lower bound is the weight of a link and is not above the weight of any link, the
  upper bound is the weight of a link and is not below the weight of any link. So the
  weight of a link that is not drawn can change the colours: with the link a-x of weight 1
  the line a-b of weight 3 is \<open>0x7F007F\<close> and without that link it is \<open>0x0000FF\<close>; with the
  link a-x of weight 9 the line b-c of weight 5 is \<open>0x7F007F\<close> and without that link it is
  \<open>0xFF0000\<close>.
\<close>

theorem dropped_links_count_in_bounds:
  assumes "loadedFont s = Some f"
    and "renderGraph3D rnd rand built (Some g) s = (e, s')"
    and "k < length (links g)"
    and "findNode (nodes g) (source (links g ! k)) = Some i"
    and "findNode (nodes g) (target (links g ! k)) = Some j"
  shows "(\<forall>l \<in> set (links g).
            num_le (Math_min (map linkWeight (links g))) (linkWeight l)
            \<and> num_le (linkWeight l) (Math_max (map linkWeight (links g))))
     \<and> (\<exists>l \<in> set (links g). linkWeight l = Math_min (map linkWeight (links g)))
     \<and> (\<exists>l \<in> set (links g). linkWeight l = Math_max (map linkWeight (links g)))
     \<and> (\<exists>g' r. currentGraph s' = Some g'
          \<and> line (links g' ! k) = Some r
          \<and> LineChild r \<in> set (children s')
          \<and> line_color (lines s' r) =
               getColorForWeight rnd (linkWeight (links g ! k)) (Math_min (map linkWeight (links g)))
                 (Math_max (map linkWeight (links g)))
          \<and> originalColor (lines s' r) = Some (line_color (lines s' r))
          \<and> simulation s' =
               (case built of
                  None \<Rightarrow>
                    Some \<lparr>sim_graph = g', sim_minWeight = Math_min (map linkWeight (links g)),
                          sim_maxWeight = Math_max (map linkWeight (links g)), running = True\<rparr>
                | Some err \<Rightarrow> map_option stop (simulation s)))
     \<and> links pairGraph = filter (resolves (nodes lightGraph)) (links lightGraph)
     \<and> nodes pairGraph = nodes lightGraph
     \<and> line_color (lines (snd (renderGraph3D exact noDraw (Some ForceError) (Some lightGraph) loadedPage)) 0)
          = 8323199
     \<and> line_color (lines (snd (renderGraph3D exact noDraw None (Some pairGraph) loadedPage)) 0)
          = 255
     \<and> links resolvedGraph = filter (resolves (nodes heavyGraph)) (links heavyGraph)
     \<and> nodes resolvedGraph = nodes heavyGraph
     \<and> line_color (lines (snd (renderGraph3D exact noDraw (Some ForceError) (Some heavyGraph) loadedPage)) 1)
          = 8323199
     \<and> line_color (lines (snd (renderGraph3D exact noDraw None (Some resolvedGraph) loadedPage)) 1)
          = 16711680"
proof -
  note fr = render_frame [OF assms(1,2)]
  let ?ws = "map linkWeight (links g)"
  have ne: "?ws \<noteq> []" using assms(3) by auto
  have b: "\<forall>l \<in> set (links g). num_le (Math_min ?ws) (linkWeight l) \<and> num_le (linkWeight l) (Math_max ?ws)"
    by (simp add: weight_between)
  from Math_min_in [OF weights_not_NaN ne]
  have lo: "\<exists>l \<in> set (links g). linkWeight l = Math_min ?ws" by auto
  from Math_max_in [OF weights_not_NaN ne]
  have hi: "\<exists>l \<in> set (links g). linkWeight l = Math_max ?ws" by auto
  from render_line_of_link [OF assms]
  obtain r where r: "line (renderedLinks rnd rand g s ! k) = Some r" "nextLine s \<le> r" "r < nextLine s'"
    "lines s' r = lineFor rnd (Math_min (map linkWeight (links g)))
       (Math_max (map linkWeight (links g))) (links g ! k) i j origin origin"
    by blast
  have c: "LineChild r \<in> set (children s')"
    using r(2,3) unfolding fr(3) fr(5) by simp
  have m: "simulation s' =
      (case built of
         None \<Rightarrow>
           Some \<lparr>sim_graph = renderedGraph rnd rand g s,
                 sim_minWeight = Math_min (map linkWeight (links g)),
                 sim_maxWeight = Math_max (map linkWeight (links g)), running = True\<rparr>
       | Some err \<Rightarrow> map_option stop (simulation s))"
    by (simp add: fr(2) renderedSim_def)
  have x: "\<exists>g' r. currentGraph s' = Some g'
          \<and> line (links g' ! k) = Some r
          \<and> LineChild r \<in> set (children s')
          \<and> line_color (lines s' r) =
               getColorForWeight rnd (linkWeight (links g ! k)) (Math_min (map linkWeight (links g)))
                 (Math_max (map linkWeight (links g)))
          \<and> originalColor (lines s' r) = Some (line_color (lines s' r))
          \<and> simulation s' =
               (case built of
                  None \<Rightarrow>
                    Some \<lparr>sim_graph = g', sim_minWeight = Math_min (map linkWeight (links g)),
                          sim_maxWeight = Math_max (map linkWeight (links g)), running = True\<rparr>
                | Some err \<Rightarrow> map_option stop (simulation s))"
    using r(1,4) c m by (simp add: fr(6) lineFor_def)
  have g: "links pairGraph = filter (resolves (nodes lightGraph)) (links lightGraph)
      \<and> nodes pairGraph = nodes lightGraph
      \<and> links resolvedGraph = filter (resolves (nodes heavyGraph)) (links heavyGraph)
      \<and> nodes resolvedGraph = nodes heavyGraph"
    by (simp add: lightGraph_def pairGraph_def heavyGraph_def resolved_run render_run resolves_def)
  have v: "line_color (lines (snd (renderGraph3D exact noDraw (Some ForceError) (Some lightGraph) loadedPage)) 0)
        = 8323199
      \<and> line_color (lines (snd (renderGraph3D exact noDraw None (Some pairGraph) loadedPage)) 0)
        = 255
      \<and> line_color (lines (snd (renderGraph3D exact noDraw (Some ForceError) (Some heavyGraph) loadedPage)) 1)
        = 8323199
      \<and> line_color (lines (snd (renderGraph3D exact noDraw None (Some resolvedGraph) loadedPage)) 1)
        = 16711680"
    by (simp add: lightGraph_def pairGraph_def heavyGraph_def resolved_run render_run colour_run)
  from b lo hi x g v show ?thesis by blast
qed

theorem dropped_links_count_in_bounds_witness:
  "loadedFont loadedPage = Some ''helvetiker''
   \<and> fst (renderGraph3D exact noDraw (Some ForceError) (Some lightGraph) loadedPage) = Some ForceError
   \<and> 0 < length (links lightGraph)
   \<and> findNode (nodes lightGraph) (source (links lightGraph ! 0)) = Some 0
   \<and> findNode (nodes lightGraph) (target (links lightGraph ! 0)) = Some 1
   \<and> findNode (nodes lightGraph) (target (links lightGraph ! 2)) = None
   \<and> map linkWeight (links lightGraph) = [Fin 3, Fin 5, Fin 1]
   \<and> Math_min (map linkWeight (links lightGraph)) = Fin 1
   \<and> Math_max (map linkWeight (links lightGraph)) = Fin 5
   \<and> Math_min (map linkWeight (links pairGraph)) = Fin 3
   \<and> Math_max (map linkWeight (links heavyGraph)) = Fin 9
   \<and> Math_max (map linkWeight (links resolvedGraph)) = Fin 5
   \<and> list_all (\<lambda>l. num_le (Math_min (map linkWeight (links lightGraph))) (linkWeight l))
        (links lightGraph)
   \<and> getColorForWeight exact (Fin 3) (Fin 1) (Fin 5) = 8323199
   \<and> getColorForWeight exact (Fin 3) (Fin 3) (Fin 5) = 255
   \<and> line_color (lines (snd (renderGraph3D exact noDraw (Some ForceError) (Some lightGraph) loadedPage)) 0)
        = 8323199
   \<and> line_color (lines (snd (renderGraph3D exact noDraw None (Some pairGraph) loadedPage)) 0)
        = 255"
proof -
  let ?r = "renderGraph3D exact noDraw (Some ForceError) (Some lightGraph) loadedPage"
  note h1 = loadedPage_font
  have h2: "?r = (fst ?r, snd ?r)" by simp
  have h3: "0 < length (links lightGraph)" by (simp add: lightGraph_def)
  have h4: "findNode (nodes lightGraph) (source (links lightGraph ! 0)) = Some 0"
    and h5: "findNode (nodes lightGraph) (target (links lightGraph ! 0)) = Some 1"
    by (simp_all add: lightGraph_def render_run)
  have v: "findNode (nodes lightGraph) (target (links lightGraph ! 2)) = None
      \<and> map linkWeight (links lightGraph) = [Fin 3, Fin 5, Fin 1]
      \<and> Math_min (map linkWeight (links lightGraph)) = Fin 1
      \<and> Math_max (map linkWeight (links lightGraph)) = Fin 5
      \<and> Math_min (map linkWeight (links pairGraph)) = Fin 3
      \<and> Math_max (map linkWeight (links heavyGraph)) = Fin 9
      \<and> Math_max (map linkWeight (links resolvedGraph)) = Fin 5
      \<and> getColorForWeight exact (Fin 3) (Fin 1) (Fin 5) = 8323199
      \<and> getColorForWeight exact (Fin 3) (Fin 3) (Fin 5) = 255"
    by (simp add: lightGraph_def pairGraph_def heavyGraph_def resolved_run render_run colour_run)
  have e: "fst ?r = Some ForceError" using render_frame(1) [OF h1 h2] .
  note t = dropped_links_count_in_bounds [OF h1 h2 h3 h4 h5]
  from t have b: "list_all (\<lambda>l. num_le (Math_min (map linkWeight (links lightGraph))) (linkWeight l))
        (links lightGraph)"
    by (simp add: list_all_iff)
  from t have c: "line_color (lines (snd ?r) 0) = 8323199
      \<and> line_color (lines (snd (renderGraph3D exact noDraw None (Some pairGraph) loadedPage)) 0) = 255"
    by blast
  from h1 h3 h4 h5 v e b c show ?thesis by blast
qed

end
